theory Spec2Isabelle
  imports Main
begin

section \<open>Python values and failures\<close>

text \<open>
  The menu (\<^verbatim>\<open>fsx_menu.py\<close>) and the overlay (\<^verbatim>\<open>fsx_overlay.py\<close>) are Python. Python
  integers are unbounded and are modelled by \<^typ>\<open>int\<close>; strings are byte lists. An
  exception that leaves a function is the left summand of its result.
\<close>

datatype py_error = OperationalError | ZeroDivisionError | IndexError

text \<open>\<^verbatim>\<open>xs[i]\<close> for a Python integer index: negative indices count from the end, anything
  outside the list raises.\<close>

definition py_index :: "'a list \<Rightarrow> int \<Rightarrow> py_error + 'a" where
  "py_index xs i =
     (if 0 \<le> i \<and> i < int (length xs) then Inr (xs ! nat i)
      else if i < 0 \<and> - int (length xs) \<le> i then Inr (xs ! nat (int (length xs) + i))
      else Inl IndexError)"

text \<open>\<^verbatim>\<open>a % b\<close>: the sign follows the divisor (as HOL's \<open>mod\<close> on \<^typ>\<open>int\<close> does), and a zero
  divisor raises.\<close>

definition py_mod :: "int \<Rightarrow> int \<Rightarrow> py_error + int" where
  "py_mod a b = (if b = 0 then Inl ZeroDivisionError else Inr (a mod b))"

text \<open>
  \<^verbatim>\<open>str.strip()\<close>. A Python string is a sequence of code points, here in its UTF-8
  encoding; the characters \<^verbatim>\<open>str.isspace()\<close> accepts are the ASCII ones (9 to 13, 28 to 32)
  and U+0085, U+00A0, U+1680, U+2000 to U+200A, U+2028, U+2029, U+202F, U+205F and U+3000,
  whose encodings take two or three bytes.
\<close>

definition py_isspace :: "char \<Rightarrow> bool" where
  "py_isspace c = (let k = (of_char c :: nat) in (9 \<le> k \<and> k \<le> 13) \<or> (28 \<le> k \<and> k \<le> 32))"

text \<open>The length of the encoding of a wide white space character that a list of byte
  values starts with, 0 when it starts with none.\<close>

definition wide_space :: "nat list \<Rightarrow> nat" where
  "wide_space bs =
     (case bs of
        a # b # rest \<Rightarrow>
          if a = 194 \<and> (b = 133 \<or> b = 160) then 2
          else (case rest of
                  [] \<Rightarrow> 0
                | c # _ \<Rightarrow>
                    if (a = 225 \<and> b = 154 \<and> c = 128)
                       \<or> (a = 226 \<and> b = 128 \<and> ((128 \<le> c \<and> c \<le> 138) \<or> c = 168 \<or> c = 169 \<or> c = 175))
                       \<or> (a = 226 \<and> b = 129 \<and> c = 159)
                       \<or> (a = 227 \<and> b = 128 \<and> c = 128)
                    then 3 else 0)
      | _ \<Rightarrow> 0)"

text \<open>The number of bytes of the white space character a string starts with, 0 when it
  starts with none; \<open>space_at_end\<close> is the same for the character it ends with.\<close>

definition space_at_start :: "string \<Rightarrow> nat" where
  "space_at_start s =
     (case s of
        [] \<Rightarrow> 0
      | c # cs \<Rightarrow>
          if py_isspace c then 1
          else if (of_char c :: nat) < 128 then 0
          else wide_space (map of_char (take 3 s)))"

definition space_at_end :: "string \<Rightarrow> nat" where
  "space_at_end s =
     (case rev s of
        [] \<Rightarrow> 0
      | c # cs \<Rightarrow>
          if py_isspace c then 1
          else if (of_char c :: nat) < 128 then 0
          else if wide_space (map of_char (rev (take 2 (rev s)))) = 2 then 2
          else if wide_space (map of_char (rev (take 3 (rev s)))) = 3 then 3
          else 0)"

text \<open>Stripping removes one white space character at a time; a string of \<open>n\<close> bytes needs
  at most \<open>n\<close> rounds.\<close>

primrec lstrip_n :: "nat \<Rightarrow> string \<Rightarrow> string" where
  "lstrip_n 0 s = s"
| "lstrip_n (Suc n) s =
     (if space_at_start s = 0 then s else lstrip_n n (drop (space_at_start s) s))"

primrec rstrip_n :: "nat \<Rightarrow> string \<Rightarrow> string" where
  "rstrip_n 0 s = s"
| "rstrip_n (Suc n) s =
     (if space_at_end s = 0 then s else rstrip_n n (take (length s - space_at_end s) s))"

definition py_strip :: "string \<Rightarrow> string" where
  "py_strip s = (let t = lstrip_n (length s) s in rstrip_n (length t) t)"

text \<open>\<^verbatim>\<open>str.replace(a, b)\<close> for single characters.\<close>

definition py_replace :: "char \<Rightarrow> char \<Rightarrow> string \<Rightarrow> string" where
  "py_replace a b s = map (\<lambda>c. if c = a then b else c) s"

text \<open>\<^verbatim>\<open>str.split(sep)\<close> for a single separator character.\<close>

fun split_on :: "char \<Rightarrow> string \<Rightarrow> string list" where
  "split_on sep [] = [[]]"
| "split_on sep (c # cs) =
     (if c = sep then [] # split_on sep cs
      else (case split_on sep cs of [] \<Rightarrow> [[c]] | w # ws \<Rightarrow> (c # w) # ws))"

text \<open>\<^verbatim>\<open>Path(p).name\<close> of a POSIX path: the last component, empty components and \<^verbatim>\<open>.\<close>
  being dropped by the path parser; \<^verbatim>\<open>Path(p).stem\<close>: the name without its last suffix.\<close>

definition path_name :: "string \<Rightarrow> string" where
  "path_name p =
     (case filter (\<lambda>c. c \<noteq> [] \<and> c \<noteq> ''.'') (split_on (CHR ''/'') p) of
        [] \<Rightarrow> []
      | c # cs \<Rightarrow> last (c # cs))"

fun rfind :: "char \<Rightarrow> string \<Rightarrow> nat option" where
  "rfind a [] = None"
| "rfind a (c # cs) =
     (case rfind a cs of
        Some i \<Rightarrow> Some (Suc i)
      | None \<Rightarrow> if c = a then Some 0 else None)"

definition path_stem :: "string \<Rightarrow> string" where
  "path_stem p =
     (let n = path_name p
      in case rfind (CHR ''.'') n of
           None \<Rightarrow> n
         | Some i \<Rightarrow> if 0 < i \<and> Suc i < length n then take i n else n)"

section \<open>The schedule store\<close>

text \<open>
  The store is the SQLite file \<^verbatim>\<open>schedules/fsx_schedule.sqlite\<close> with one table,
  \<^verbatim>\<open>schedule_events\<close>. A row has the key columns \<^verbatim>\<open>channel_id\<close> (text), \<^verbatim>\<open>start_utc\<close>,
  \<^verbatim>\<open>end_utc\<close> (integers) and the optional columns \<^verbatim>\<open>title\<close>, \<^verbatim>\<open>path\<close>, \<^verbatim>\<open>channel_name\<close>,
  whose value may be NULL (\<open>None\<close>). Which optional columns the table has is part of the
  table; the value stored in a row for a column the table lacks is never read.

  Three ways of failing are modelled: the file is absent (\<open>db_exists\<close>), opening it
  fails (\<open>connect_ok\<close>), and the table is missing (\<open>schedule_events = None\<close>), in which
  case every \<^verbatim>\<open>SELECT\<close> raises \<^verbatim>\<open>sqlite3.OperationalError\<close>, as does a \<^verbatim>\<open>SELECT\<close> naming a
  column the table does not have.
\<close>

record sched_row =
  channel_id :: string
  start_utc :: int
  end_utc :: int
  title :: "string option"
  path :: "string option"
  channel_name :: "string option"

record sched_table =
  has_channel_name :: bool
  has_title :: bool
  has_path :: bool
  rows :: "sched_row list"

record sched_db =
  db_exists :: bool
  connect_ok :: bool
  schedule_events :: "sched_table option"

text \<open>\<^verbatim>\<open>sqlite3.connect\<close>: the connection gives access to the table, or raises.\<close>

definition connect :: "sched_db \<Rightarrow> py_error + sched_table option" where
  "connect db = (if connect_ok db then Inr (schedule_events db) else Inl OperationalError)"

text \<open>\<^verbatim>\<open>cursor.fetchone()\<close>, \<^verbatim>\<open>LIMIT n\<close>, \<^verbatim>\<open>ORDER BY k ASC\<close> and \<^verbatim>\<open>ORDER BY k DESC\<close>. Rows with
  equal keys keep the table's order.\<close>

definition fetchone :: "'a list \<Rightarrow> 'a option" where
  "fetchone rs = (case rs of [] \<Rightarrow> None | r # _ \<Rightarrow> Some r)"

definition order_by_asc :: "('a \<Rightarrow> int) \<Rightarrow> 'a list \<Rightarrow> 'a list" where
  "order_by_asc k rs = sort_key k rs"

definition order_by_desc :: "('a \<Rightarrow> int) \<Rightarrow> 'a list \<Rightarrow> 'a list" where
  "order_by_desc k rs = sort_key (\<lambda>r. - k r) rs"

text \<open>\<^verbatim>\<open>CAST(x AS INTEGER)\<close> of a text value: leading white space is skipped, then the
  longest prefix that reads as an integer is taken (0 if there is none), saturating at
  the 64-bit range.\<close>

definition sql_isspace :: "char \<Rightarrow> bool" where
  "sql_isspace c = (let k = (of_char c :: nat) in (9 \<le> k \<and> k \<le> 13) \<or> k = 32)"

definition is_digit :: "char \<Rightarrow> bool" where
  "is_digit c = (let k = (of_char c :: nat) in 48 \<le> k \<and> k \<le> 57)"

fun digits_value :: "int \<Rightarrow> string \<Rightarrow> int" where
  "digits_value acc [] = acc"
| "digits_value acc (c # cs) =
     (if is_digit c then digits_value (acc * 10 + (int (of_char c) - 48)) cs else acc)"

definition clamp_int64 :: "int \<Rightarrow> int" where
  "clamp_int64 v = max (- 9223372036854775808) (min 9223372036854775807 v)"

definition sql_cast_integer :: "string \<Rightarrow> int" where
  "sql_cast_integer s =
     (case dropWhile sql_isspace s of
        [] \<Rightarrow> 0
      | c # cs \<Rightarrow>
          if c = CHR ''-'' then clamp_int64 (- digits_value 0 cs)
          else if c = CHR ''+'' then clamp_int64 (digits_value 0 cs)
          else clamp_int64 (digits_value 0 (c # cs)))"

section \<open>Schedule helpers of the menu\<close>

text \<open>\<^verbatim>\<open>_safe_title_from_path\<close>.\<close>

definition safe_title_from_path :: "string \<Rightarrow> string" where
  "safe_title_from_path p =
     (let base = path_name p;
          stem = path_stem base;
          t = py_strip (py_replace (CHR ''.'') (CHR '' '') (py_replace (CHR ''_'') (CHR '' '') stem))
      in if t \<noteq> [] then t else base)"

text \<open>\<^verbatim>\<open>_table_has_column\<close>: \<^verbatim>\<open>PRAGMA table_info\<close> lists no column for a missing table, and
  any failure is answered by \<^verbatim>\<open>False\<close>.\<close>

definition table_columns :: "sched_table \<Rightarrow> string list" where
  "table_columns t =
     [''channel_id'', ''start_utc'', ''end_utc'']
     @ (if has_title t then [''title''] else [])
     @ (if has_path t then [''path''] else [])
     @ (if has_channel_name t then [''channel_name''] else [])"

definition table_has_column :: "sched_table option \<Rightarrow> string \<Rightarrow> bool" where
  "table_has_column conn column =
     (case conn of None \<Rightarrow> False | Some t \<Rightarrow> column \<in> set (table_columns t))"

text \<open>
  \<^verbatim>\<open>resolve_now_path_and_offset\<close>. The body of its \<^verbatim>\<open>try\<close> block is \<open>resolve_body\<close>; the
  handler \<^verbatim>\<open>except Exception: return None\<close> is applied by the function itself. The clock
  \<^verbatim>\<open>int(time.time())\<close> is the argument \<open>now\<close>. The offset is a whole number of seconds
  (the source converts it to a float).
\<close>

definition resolve_body :: "sched_db \<Rightarrow> int \<Rightarrow> string \<Rightarrow> py_error + (string \<times> int) option" where
  "resolve_body db now cid =
     (if \<not> db_exists db then Inr None
      else case connect db of
        Inl e \<Rightarrow> Inl e
      | Inr None \<Rightarrow> Inl OperationalError
      | Inr (Some t) \<Rightarrow>
          if \<not> has_path t then Inl OperationalError
          else case fetchone (take 1 (order_by_desc start_utc
                  (filter (\<lambda>r. channel_id r = cid \<and> start_utc r \<le> now \<and> end_utc r > now)
                     (rows t)))) of
            None \<Rightarrow> Inr None
          | Some row \<Rightarrow>
              (case path row of
                 None \<Rightarrow> Inr None
               | Some p \<Rightarrow>
                   if p = [] then Inr None
                   else Inr (Some (p, max 0 (now - start_utc row)))))"

definition resolve_now_path_and_offset :: "sched_db \<Rightarrow> int \<Rightarrow> string \<Rightarrow> py_error + (string \<times> int) option" where
  "resolve_now_path_and_offset db now cid =
     (case resolve_body db now cid of Inl e \<Rightarrow> Inr None | Inr r \<Rightarrow> Inr r)"

text \<open>
  The guide snapshot: a channel is the dictionary \<^verbatim>\<open>{"id", "name", "events"}\<close>, an event
  the dictionary \<^verbatim>\<open>{"title", "start", "end"}\<close>.
\<close>

record event =
  ev_title :: string
  ev_start :: int
  ev_end :: int

record channel =
  ch_id :: string
  ch_name :: string
  ch_events :: "event list"

text \<open>The placeholder title, an em dash (three bytes in UTF-8).\<close>

definition DASH :: string where
  "DASH = [char_of (226::nat), char_of (128::nat), char_of (148::nat)]"

text \<open>The body of the loop over \<^verbatim>\<open>ev_rows\<close>: one event per row, the end time corrected.\<close>

definition event_of_row :: "bool \<Rightarrow> bool \<Rightarrow> sched_row \<Rightarrow> event" where
  "event_of_row hast hasp r =
     (let start' = start_utc r;
          end' = (if end_utc r \<le> start' then start' + 60 else end_utc r);
          t0 = (if hast then py_strip (case title r of None \<Rightarrow> [] | Some s \<Rightarrow> s) else []);
          t1 = (if t0 = [] \<and> hasp
                then safe_title_from_path (case path r of None \<Rightarrow> [] | Some s \<Rightarrow> s) else t0);
          t2 = (if t1 = [] then DASH else t1)
      in \<lparr>ev_title = t2, ev_start = start', ev_end = end'\<rparr>)"

text \<open>The channel name query and its fallback.\<close>

definition channel_name_of :: "sched_table \<Rightarrow> string \<Rightarrow> string" where
  "channel_name_of t cid =
     (if has_channel_name t then
        (case fetchone (take 1 (filter (\<lambda>r. channel_id r = cid \<and> channel_name r \<noteq> None
                                           \<and> channel_name r \<noteq> Some []) (rows t))) of
           Some r \<Rightarrow> (case channel_name r of
                        Some n \<Rightarrow> if n \<noteq> [] then py_strip n else ''Channel '' @ cid
                      | None \<Rightarrow> ''Channel '' @ cid)
         | None \<Rightarrow> ''Channel '' @ cid)
      else ''Channel '' @ cid)"

text \<open>The event query of one channel (\<^verbatim>\<open>end_utc > now\<close>, by start time, at most six rows).\<close>

definition ev_rows :: "sched_table \<Rightarrow> string \<Rightarrow> int \<Rightarrow> sched_row list" where
  "ev_rows t cid now_ts =
     take 6 (order_by_asc start_utc
       (filter (\<lambda>r. channel_id r = cid \<and> end_utc r > now_ts) (rows t)))"

definition channel_of :: "sched_table \<Rightarrow> int \<Rightarrow> string \<Rightarrow> channel" where
  "channel_of t now_ts cid =
     (let events = map (event_of_row (table_has_column (Some t) ''title'')
                                     (table_has_column (Some t) ''path'')) (ev_rows t cid now_ts);
          events' = (if events = []
                     then [\<lparr>ev_title = DASH, ev_start = now_ts, ev_end = now_ts + 3600\<rparr>]
                     else events)
      in \<lparr>ch_id = cid, ch_name = channel_name_of t cid, ch_events = events'\<rparr>)"

text \<open>The channel list: \<^verbatim>\<open>SELECT DISTINCT channel_id ... ORDER BY CAST(channel_id AS INTEGER)\<close>.
  Each identifier is listed where it first occurs, and identifiers that cast to the same
  integer keep that order.\<close>

definition distinct_first :: "'a list \<Rightarrow> 'a list" where
  "distinct_first xs = rev (remdups (rev xs))"

definition chans :: "sched_table \<Rightarrow> string list" where
  "chans t = order_by_asc sql_cast_integer (distinct_first (map channel_id (rows t)))"

text \<open>
  \<^verbatim>\<open>load_channels_and_events\<close>. The connection is opened outside the \<^verbatim>\<open>try\<close> block, and
  the block has a \<^verbatim>\<open>finally\<close> clause (closing the connection) but no handler: a failure
  leaves the function.
\<close>

definition load_channels_and_events :: "sched_db \<Rightarrow> int \<Rightarrow> py_error + channel list" where
  "load_channels_and_events db now_ts =
     (if \<not> db_exists db then Inr []
      else case connect db of
        Inl e \<Rightarrow> Inl e
      | Inr None \<Rightarrow> Inl OperationalError
      | Inr (Some t) \<Rightarrow> Inr (map (channel_of t now_ts) (chans t)))"

section \<open>The overlay's schedule query\<close>

text \<open>\<^verbatim>\<open>schedule_now_next\<close> of \<^verbatim>\<open>fsx_overlay.py\<close>: it is given an open connection, reads the
  clock when \<^verbatim>\<open>now_ts\<close> is \<^verbatim>\<open>None\<close>, and returns the two rows as stored.\<close>

definition schedule_now_next ::
  "sched_table option \<Rightarrow> string \<Rightarrow> int option \<Rightarrow> int \<Rightarrow> py_error + (sched_row option \<times> sched_row option)" where
  "schedule_now_next conn cid now_opt clock =
     (let now_ts = (case now_opt of None \<Rightarrow> clock | Some n \<Rightarrow> n)
      in case conn of
           None \<Rightarrow> Inl OperationalError
         | Some t \<Rightarrow>
             Inr (fetchone (take 1 (order_by_desc start_utc
                    (filter (\<lambda>r. channel_id r = cid \<and> start_utc r \<le> now_ts \<and> end_utc r > now_ts)
                       (rows t)))),
                  fetchone (take 1 (order_by_asc start_utc
                    (filter (\<lambda>r. channel_id r = cid \<and> start_utc r > now_ts) (rows t))))))"

section \<open>Helper processes\<close>

text \<open>
  The preview and the background audio are \<^verbatim>\<open>mpv\<close> child processes. The part of the
  operating system the menu acts on is the table of its live helper processes. A process
  is described by what it was started with: the preview by its media path and start
  offset (\<^verbatim>\<open>--start\<close>, whole seconds here), the audio by its path and volume.
\<close>

type_synonym pid = nat

datatype mpv_args = PreviewArgs string int | AudioArgs string int

record os_procs =
  live :: "(pid \<times> mpv_args) list"
  next_pid :: pid
  history :: "(pid \<times> mpv_args) list list"

text \<open>\<open>history\<close> keeps every content the table has had, oldest first: each change of the
  table appends the new content. It lets one speak of every instant between two calls,
  and of the order in which a call stops and starts processes.\<close>

definition set_live :: "(pid \<times> mpv_args) list \<Rightarrow> os_procs \<Rightarrow> os_procs" where
  "set_live l os = (if l = live os then os else os\<lparr>live := l, history := history os @ [l]\<rparr>)"

text \<open>\<^verbatim>\<open>subprocess.Popen(args)\<close>: a new live process, or an exception (\<open>None\<close>) when the
  program cannot be started. Whether it can is the caller's first argument.\<close>

definition Popen :: "bool \<Rightarrow> mpv_args \<Rightarrow> os_procs \<Rightarrow> pid option \<times> os_procs" where
  "Popen ok args os =
     (if ok then (Some (next_pid os),
                  (set_live (live os @ [(next_pid os, args)]) os)\<lparr>next_pid := Suc (next_pid os)\<rparr>)
      else (None, os))"

text \<open>\<^verbatim>\<open>proc.poll() is None\<close>: the process has not exited.\<close>

definition running :: "os_procs \<Rightarrow> pid \<Rightarrow> bool" where
  "running os p = (p \<in> fst ` set (live os))"

text \<open>A process leaves the table when it exits. \<^verbatim>\<open>proc.terminate()\<close> followed by
  \<^verbatim>\<open>proc.wait(timeout=0.8)\<close> either sees it exit or raises \<^verbatim>\<open>TimeoutExpired\<close> (\<open>False\<close>);
  \<^verbatim>\<open>proc.kill()\<close> cannot be ignored by the process and is taken to act at once. Sending a
  signal to one's own child does not raise, so the handler \<^verbatim>\<open>except Exception: pass\<close> around
  these calls has nothing to catch here.\<close>

definition exited :: "pid \<Rightarrow> os_procs \<Rightarrow> os_procs" where
  "exited p os = set_live (filter (\<lambda>q. fst q \<noteq> p) (live os)) os"

definition terminate_wait :: "bool \<Rightarrow> pid \<Rightarrow> os_procs \<Rightarrow> bool \<times> os_procs" where
  "terminate_wait exits p os = (if exits then (True, exited p os) else (False, os))"

definition kill :: "pid \<Rightarrow> os_procs \<Rightarrow> os_procs" where
  "kill p os = exited p os"

text \<open>The body shared, word for word, by \<^verbatim>\<open>PreviewWidget.stop_preview\<close> and
  \<^verbatim>\<open>MenuAudio.stop\<close>, up to the final \<^verbatim>\<open>self.proc = None\<close>.\<close>

definition stop_proc :: "bool \<Rightarrow> pid option \<Rightarrow> os_procs \<Rightarrow> os_procs" where
  "stop_proc exits pr os =
     (case pr of
        None \<Rightarrow> os
      | Some p \<Rightarrow>
          if running os p then
            (case terminate_wait exits p os of
               (True, os') \<Rightarrow> os'
             | (False, os') \<Rightarrow> kill p os')
          else os)"

text \<open>What a call finds outside the program: the clock, the schedule store, the file
  system, whether \<^verbatim>\<open>mpv\<close> can be started, whether a helper exits in time when asked to, and
  the answers of the upstream player: \<^verbatim>\<open>/pause\<close> and \<^verbatim>\<open>/live\<close> answered with 200 or not;
  \<open>status_channel\<close> is \<^verbatim>\<open>str(st["channel"])\<close> when \<^verbatim>\<open>/status\<close> answers a dictionary with a
  channel that is not \<^verbatim>\<open>None\<close>; \<open>status_num\<close> is the first non-empty value among the
  status keys \<^verbatim>\<open>channel\<close>, \<^verbatim>\<open>channel_id\<close>, \<^verbatim>\<open>ch\<close> as a string, \<open>status_name\<close> the first among
  \<^verbatim>\<open>channel_name\<close>, \<^verbatim>\<open>name\<close>, \<^verbatim>\<open>ch_name\<close>, each empty when there is none.\<close>

record env =
  clock :: int
  sched :: sched_db
  file_exists :: "string \<Rightarrow> bool"
  spawn_ok :: bool
  term_exits :: bool
  pause_ok :: bool
  live_ok :: bool
  status_channel :: "string option"
  status_num :: string
  status_name :: string

record preview_widget =
  proc :: "pid option"

definition stop_preview :: "env \<Rightarrow> preview_widget \<times> os_procs \<Rightarrow> preview_widget \<times> os_procs" where
  "stop_preview e st =
     (case st of (pw, os) \<Rightarrow> (pw\<lparr>proc := None\<rparr>, stop_proc (term_exits e) (proc pw) os))"

definition start_preview ::
  "env \<Rightarrow> string \<Rightarrow> int \<Rightarrow> preview_widget \<times> os_procs \<Rightarrow> preview_widget \<times> os_procs" where
  "start_preview e p start_sec st =
     (case stop_preview e st of
        (pw, os) \<Rightarrow>
          (case Popen (spawn_ok e) (PreviewArgs p (max 0 start_sec)) os of
             (Some q, os') \<Rightarrow> (pw\<lparr>proc := Some q\<rparr>, os')
           | (None, os') \<Rightarrow> (pw\<lparr>proc := None\<rparr>, os')))"

record menu_audio =
  audio_path :: string
  volume :: int
  audio_proc :: "pid option"

text \<open>\<^verbatim>\<open>MenuAudio.__init__\<close>, \<^verbatim>\<open>MenuAudio.stop\<close> and \<^verbatim>\<open>MenuAudio.start\<close>.\<close>

definition MenuAudio :: "string \<Rightarrow> int \<Rightarrow> menu_audio" where
  "MenuAudio p v = \<lparr>audio_path = p, volume = max 0 (min 100 v), audio_proc = None\<rparr>"

definition audio_stop :: "env \<Rightarrow> menu_audio \<times> os_procs \<Rightarrow> menu_audio \<times> os_procs" where
  "audio_stop e st =
     (case st of (ma, os) \<Rightarrow>
        (ma\<lparr>audio_proc := None\<rparr>, stop_proc (term_exits e) (audio_proc ma) os))"

definition audio_start :: "env \<Rightarrow> menu_audio \<times> os_procs \<Rightarrow> menu_audio \<times> os_procs" where
  "audio_start e st =
     (case st of (ma, os) \<Rightarrow>
        if \<not> file_exists e (audio_path ma) then st
        else (case audio_stop e st of
                (ma', os') \<Rightarrow>
                  (case Popen (spawn_ok e) (AudioArgs (audio_path ma') (volume ma')) os' of
                     (Some q, os'') \<Rightarrow> (ma'\<lparr>audio_proc := Some q\<rparr>, os'')
                   | (None, os'') \<Rightarrow> (ma'\<lparr>audio_proc := None\<rparr>, os''))))"

section \<open>The menu window\<close>

text \<open>
  \<^verbatim>\<open>MenuWindow\<close> with the fields the control logic reads and writes. \<open>visible\<close> is Qt's
  \<^verbatim>\<open>isVisible()\<close>; \<open>pip_footer\<close> is the \<^verbatim>\<open>PiPFooter\<close> child (its \<^verbatim>\<open>ch_num\<close>, \<^verbatim>\<open>ch_name\<close> and
  whether it is shown); \<open>os_tab\<close> is the process table the two helpers live in; \<open>sent\<close> is the
  list of requests made to the upstream player, oldest first. Painting
  (\<^verbatim>\<open>self.update()\<close>, \<^verbatim>\<open>raise_()\<close>) changes none of these.
\<close>

datatype mode = Root | Guide

datatype player_cmd =
  PostPause | PostLive | GetStatus | PostZap string | MpvPauseOn | MpvPauseOff

record pip_footer =
  ft_num :: string
  ft_name :: string
  ft_shown :: bool

record menu_window =
  visible :: bool
  items :: "string list"
  sel :: int
  sel_last :: int
  mode :: mode
  guide_rows :: "channel list"
  g_sel_row :: int
  g_sel_col :: int
  g_row_offset :: int
  g_max_visible :: int
  preview :: preview_widget
  menu_audio :: menu_audio
  pip_footer :: pip_footer
  os_tab :: os_procs
  sent :: "player_cmd list"

definition MENU_ITEMS :: "string list" where
  "MENU_ITEMS = [''Live TV'', ''TV Guide'', ''Planner'', ''OnDemand'']"

definition GUIDE_MAX_ROWS :: int where
  "GUIDE_MAX_ROWS = 8"

text \<open>\<^verbatim>\<open>MenuWindow.__init__\<close>, for an audio path and volume and a process table.\<close>

definition MenuWindow :: "string \<Rightarrow> int \<Rightarrow> os_procs \<Rightarrow> menu_window" where
  "MenuWindow apath avol os0 =
     \<lparr>visible = False, items = MENU_ITEMS, sel = 0, sel_last = 0, mode = Root,
      guide_rows = [], g_sel_row = 0, g_sel_col = 0, g_row_offset = 0,
      g_max_visible = GUIDE_MAX_ROWS,
      preview = \<lparr>proc = None\<rparr>, menu_audio = MenuAudio apath avol,
      pip_footer = \<lparr>ft_num = [], ft_name = [], ft_shown = False\<rparr>,
      os_tab = os0, sent = []\<rparr>"

text \<open>\<^verbatim>\<open>PiPFooter.set_info\<close>.\<close>

definition set_info :: "string \<Rightarrow> string \<Rightarrow> pip_footer \<Rightarrow> pip_footer" where
  "set_info num name f =
     f\<lparr>ft_num := num, ft_name := name, ft_shown := (num \<noteq> [] \<or> name \<noteq> [])\<rparr>"

text \<open>The two helper objects act on the window's process table.\<close>

definition w_stop_preview :: "env \<Rightarrow> menu_window \<Rightarrow> menu_window" where
  "w_stop_preview e w =
     (case stop_preview e (preview w, os_tab w) of (pw, os') \<Rightarrow> w\<lparr>preview := pw, os_tab := os'\<rparr>)"

definition w_start_preview :: "env \<Rightarrow> string \<Rightarrow> int \<Rightarrow> menu_window \<Rightarrow> menu_window" where
  "w_start_preview e p off w =
     (case start_preview e p off (preview w, os_tab w) of (pw, os') \<Rightarrow> w\<lparr>preview := pw, os_tab := os'\<rparr>)"

definition w_audio_stop :: "env \<Rightarrow> menu_window \<Rightarrow> menu_window" where
  "w_audio_stop e w =
     (case audio_stop e (menu_audio w, os_tab w) of (ma, os') \<Rightarrow> w\<lparr>menu_audio := ma, os_tab := os'\<rparr>)"

definition w_audio_start :: "env \<Rightarrow> menu_window \<Rightarrow> menu_window" where
  "w_audio_start e w =
     (case audio_start e (menu_audio w, os_tab w) of (ma, os') \<Rightarrow> w\<lparr>menu_audio := ma, os_tab := os'\<rparr>)"

text \<open>\<^verbatim>\<open>_pause_playback\<close> and \<^verbatim>\<open>_return_to_live\<close>: requests to the upstream player, with the
  local \<^verbatim>\<open>mpv\<close> socket as fallback. None of the helpers they call raises.\<close>

definition pause_playback :: "env \<Rightarrow> menu_window \<Rightarrow> menu_window" where
  "pause_playback e w =
     (if pause_ok e then w\<lparr>sent := sent w @ [PostPause]\<rparr>
      else w\<lparr>sent := sent w @ [PostPause, MpvPauseOn]\<rparr>)"

definition return_to_live :: "env \<Rightarrow> menu_window \<Rightarrow> menu_window" where
  "return_to_live e w =
     (if live_ok e then w\<lparr>sent := sent w @ [PostLive]\<rparr>
      else (case status_channel e of
              Some ch \<Rightarrow>
                if ch \<noteq> [] then w\<lparr>sent := sent w @ [PostLive, GetStatus, PostZap ch, MpvPauseOff]\<rparr>
                else w\<lparr>sent := sent w @ [PostLive, GetStatus, MpvPauseOff]\<rparr>
            | None \<Rightarrow> w\<lparr>sent := sent w @ [PostLive, GetStatus, MpvPauseOff]\<rparr>))"

text \<open>\<^verbatim>\<open>close_menu\<close>.\<close>

definition close_menu :: "env \<Rightarrow> menu_window \<Rightarrow> menu_window" where
  "close_menu e w =
     (let w1 = w_audio_stop e w;
          w2 = w_stop_preview e w1;
          w3 = w2\<lparr>pip_footer := (pip_footer w2)\<lparr>ft_shown := False\<rparr>\<rparr>;
          w4 = w3\<lparr>visible := False\<rparr>
      in return_to_live e w4)"

text \<open>\<^verbatim>\<open>_start_preview_from_channel\<close>.\<close>

definition start_preview_from_channel :: "env \<Rightarrow> string \<Rightarrow> menu_window \<Rightarrow> py_error + menu_window" where
  "start_preview_from_channel e cid w =
     (case resolve_now_path_and_offset (sched e) (clock e) cid of
        Inl err \<Rightarrow> Inl err
      | Inr None \<Rightarrow> Inr w
      | Inr (Some (p, off)) \<Rightarrow>
          if \<not> file_exists e p then Inr w else Inr (w_start_preview e p off w))"

text \<open>Root-mode navigation: \<^verbatim>\<open>nav_up\<close>, \<^verbatim>\<open>nav_down\<close>.\<close>

definition nav_up :: "menu_window \<Rightarrow> py_error + menu_window" where
  "nav_up w =
     (if mode w \<noteq> Root then Inr w
      else case py_mod (sel w - 1) (int (length (items w))) of
             Inl err \<Rightarrow> Inl err
           | Inr k \<Rightarrow> Inr (w\<lparr>sel := k, sel_last := k\<rparr>))"

definition nav_down :: "menu_window \<Rightarrow> py_error + menu_window" where
  "nav_down w =
     (if mode w \<noteq> Root then Inr w
      else case py_mod (sel w + 1) (int (length (items w))) of
             Inl err \<Rightarrow> Inl err
           | Inr k \<Rightarrow> Inr (w\<lparr>sel := k, sel_last := k\<rparr>))"

text \<open>\<^verbatim>\<open>_guide_current_channel_id\<close>.\<close>

definition guide_current_channel_id :: "menu_window \<Rightarrow> py_error + string option" where
  "guide_current_channel_id w =
     (if guide_rows w = [] then Inr None
      else case py_index (guide_rows w)
                  (max 0 (min (g_sel_row w) (int (length (guide_rows w)) - 1))) of
             Inl err \<Rightarrow> Inl err
           | Inr c \<Rightarrow> Inr (Some (ch_id c)))"

text \<open>The tail shared by \<^verbatim>\<open>guide_page_up\<close> and \<^verbatim>\<open>guide_page_down\<close>: the preview and the footer
  follow the selected row. An empty identifier counts as none (\<^verbatim>\<open>if ch_id:\<close>).\<close>

definition guide_reanchor :: "env \<Rightarrow> menu_window \<Rightarrow> py_error + menu_window" where
  "guide_reanchor e w =
     (case guide_current_channel_id w of
        Inl err \<Rightarrow> Inl err
      | Inr None \<Rightarrow> Inr w
      | Inr (Some cid) \<Rightarrow>
          if cid = [] then Inr w
          else (case start_preview_from_channel e cid w of
                  Inl err \<Rightarrow> Inl err
                | Inr w1 \<Rightarrow>
                    (case py_index (guide_rows w1) (g_sel_row w1) of
                       Inl err \<Rightarrow> Inl err
                     | Inr c \<Rightarrow> Inr (w1\<lparr>pip_footer := set_info cid (ch_name c) (pip_footer w1)\<rparr>))))"

text \<open>\<^verbatim>\<open>_enter_guide_mode\<close>: a failing snapshot load is replaced by the empty list.\<close>

definition load_guide_rows :: "env \<Rightarrow> channel list" where
  "load_guide_rows e =
     (case load_channels_and_events (sched e) (clock e) of Inl err \<Rightarrow> [] | Inr cs \<Rightarrow> cs)"

definition enter_guide_mode :: "env \<Rightarrow> menu_window \<Rightarrow> py_error + menu_window" where
  "enter_guide_mode e w =
     (let w1 = w\<lparr>guide_rows := load_guide_rows e, g_sel_row := 0, g_sel_col := 0,
                 g_row_offset := 0, mode := Guide\<rparr>
      in case guide_current_channel_id w1 of
           Inl err \<Rightarrow> Inl err
         | Inr None \<Rightarrow> Inr w1
         | Inr (Some cid) \<Rightarrow>
             if cid = [] then Inr w1
             else (case start_preview_from_channel e cid w1 of
                     Inl err \<Rightarrow> Inl err
                   | Inr w2 \<Rightarrow>
                       (if guide_rows w2 = [] then
                          Inr (w2\<lparr>pip_footer := (set_info cid [] (pip_footer w2))\<lparr>ft_shown := True\<rparr>\<rparr>)
                        else case py_index (guide_rows w2) (g_sel_row w2) of
                               Inl err \<Rightarrow> Inl err
                             | Inr c \<Rightarrow>
                                 Inr (w2\<lparr>pip_footer :=
                                   (set_info cid (ch_name c) (pip_footer w2))\<lparr>ft_shown := True\<rparr>\<rparr>))))"

text \<open>Guide navigation: \<^verbatim>\<open>guide_left\<close>, \<^verbatim>\<open>guide_right\<close>, \<^verbatim>\<open>guide_page_up\<close>, \<^verbatim>\<open>guide_page_down\<close>.\<close>

definition guide_left :: "menu_window \<Rightarrow> py_error + menu_window" where
  "guide_left w =
     (if mode w \<noteq> Guide then Inr w
      else Inr (w\<lparr>g_sel_col := max 0 (g_sel_col w - 1)\<rparr>))"

definition guide_right :: "menu_window \<Rightarrow> py_error + menu_window" where
  "guide_right w =
     (if mode w \<noteq> Guide then Inr w
      else if guide_rows w = [] then Inr w
      else case py_index (guide_rows w) (g_sel_row w) of
             Inl err \<Rightarrow> Inl err
           | Inr row \<Rightarrow>
               (let max_col = max 0 (int (length (ch_events row)) - 1)
                in Inr (w\<lparr>g_sel_col := min max_col (g_sel_col w + 1)\<rparr>)))"

definition guide_page_up :: "env \<Rightarrow> menu_window \<Rightarrow> py_error + menu_window" where
  "guide_page_up e w =
     (if mode w \<noteq> Guide then Inr w
      else if guide_rows w = [] then Inr w
      else (let w1 = w\<lparr>g_sel_row := max 0 (g_sel_row w - 1)\<rparr>;
                w2 = (if g_sel_row w1 < g_row_offset w1
                      then w1\<lparr>g_row_offset := g_sel_row w1\<rparr> else w1)
            in guide_reanchor e w2))"

definition guide_page_down :: "env \<Rightarrow> menu_window \<Rightarrow> py_error + menu_window" where
  "guide_page_down e w =
     (if mode w \<noteq> Guide then Inr w
      else if guide_rows w = [] then Inr w
      else (let w1 = w\<lparr>g_sel_row := min (int (length (guide_rows w)) - 1) (g_sel_row w + 1)\<rparr>;
                w2 = (if g_sel_row w1 \<ge> g_row_offset w1 + g_max_visible w1
                      then w1\<lparr>g_row_offset := g_sel_row w1 - g_max_visible w1 + 1\<rparr> else w1)
            in guide_reanchor e w2))"

text \<open>\<^verbatim>\<open>_start_preview_from_status\<close>, \<^verbatim>\<open>_update_pip_footer_from_status\<close> and \<^verbatim>\<open>open_menu\<close>.\<close>

definition start_preview_from_status :: "env \<Rightarrow> menu_window \<Rightarrow> py_error + menu_window" where
  "start_preview_from_status e w =
     (let w1 = w\<lparr>sent := sent w @ [GetStatus]\<rparr>
      in case status_channel e of
           None \<Rightarrow> Inr w1
         | Some ch \<Rightarrow> start_preview_from_channel e ch w1)"

definition update_pip_footer_from_status :: "env \<Rightarrow> menu_window \<Rightarrow> menu_window" where
  "update_pip_footer_from_status e w =
     (let num = status_num e;
          name = (if status_name e = [] \<and> num \<noteq> [] then ''Channel '' @ num else status_name e)
      in w\<lparr>sent := sent w @ [GetStatus],
           pip_footer := (set_info num name (pip_footer w))\<lparr>ft_shown := True\<rparr>\<rparr>)"

definition open_menu :: "env \<Rightarrow> menu_window \<Rightarrow> py_error + menu_window" where
  "open_menu e w =
     (let w1 = pause_playback e (w\<lparr>visible := True\<rparr>)
      in case start_preview_from_status e w1 of
           Inl err \<Rightarrow> Inl err
         | Inr w2 \<Rightarrow>
             (let w3 = w_audio_start e (update_pip_footer_from_status e w2)
              in Inr (w3\<lparr>mode := Root, sel := sel_last w3\<rparr>)))"

text \<open>\<^verbatim>\<open>nav_enter\<close>.\<close>

definition nav_enter :: "env \<Rightarrow> menu_window \<Rightarrow> py_error + menu_window" where
  "nav_enter e w =
     (case mode w of
        Root \<Rightarrow>
          (let w1 = w\<lparr>sel_last := sel w\<rparr>
           in case py_index (items w1) (sel w1) of
                Inl err \<Rightarrow> Inl err
              | Inr label \<Rightarrow>
                  if label = ''Live TV'' then Inr (close_menu e w1)
                  else if label = ''TV Guide'' then enter_guide_mode e w1
                  else if label = ''OnDemand'' then Inr (close_menu e w1)
                  else if label = ''Planner'' then Inr (close_menu e w1)
                  else Inr w1)
      | Guide \<Rightarrow>
          (case guide_current_channel_id w of
             Inl err \<Rightarrow> Inl err
           | Inr None \<Rightarrow> Inr (close_menu e w)
           | Inr (Some cid) \<Rightarrow>
               if cid = [] then Inr (close_menu e w)
               else Inr (close_menu e (w\<lparr>sent := sent w @ [PostZap cid]\<rparr>))))"

text \<open>\<^verbatim>\<open>_select_item\<close>, by index or by label (\<^verbatim>\<open>list.index\<close> finds the first occurrence),
  and \<^verbatim>\<open>_activate_selection\<close>.\<close>

datatype target = ByIndex int | ByLabel string

fun list_index :: "'a list \<Rightarrow> 'a \<Rightarrow> int option" where
  "list_index [] x = None"
| "list_index (y # ys) x =
     (if y = x then Some 0 else map_option (\<lambda>i. i + 1) (list_index ys x))"

definition select_item :: "target \<Rightarrow> menu_window \<Rightarrow> bool \<times> menu_window" where
  "select_item t w =
     (case t of
        ByIndex i \<Rightarrow>
          if 0 \<le> i \<and> i < int (length (items w)) then (True, w\<lparr>sel := i, sel_last := i\<rparr>)
          else (False, w)
      | ByLabel l \<Rightarrow>
          (case list_index (items w) l of
             Some i \<Rightarrow> (True, w\<lparr>sel := i, sel_last := i\<rparr>)
           | None \<Rightarrow> (False, w)))"

definition activate_selection :: "env \<Rightarrow> menu_window \<Rightarrow> py_error + menu_window" where
  "activate_selection e w = nav_enter e w"

text \<open>\<^verbatim>\<open>int(key)\<close> on a string: optional surrounding white space (as \<^verbatim>\<open>str.strip()\<close> removes
  it), an optional sign, ASCII decimal digits with single underscores allowed between
  them; \<open>None\<close> is \<^verbatim>\<open>ValueError\<close>.\<close>

fun digits_ok :: "string \<Rightarrow> bool" where
  "digits_ok [] = False"
| "digits_ok [c] = is_digit c"
| "digits_ok (c # d # cs) =
     (is_digit c \<and> (if d = CHR ''_'' then digits_ok cs else digits_ok (d # cs)))"

definition py_int :: "string \<Rightarrow> int option" where
  "py_int s =
     (let t = py_strip s;
          neg = (t \<noteq> [] \<and> hd t = CHR ''-'');
          body = (if t \<noteq> [] \<and> (hd t = CHR ''-'' \<or> hd t = CHR ''+'') then tl t else t)
      in if digits_ok body
         then Some ((if neg then - 1 else 1) * digits_value 0 (filter is_digit body))
         else None)"

definition parse_target :: "string \<Rightarrow> target" where
  "parse_target key = (case py_int key of Some i \<Rightarrow> ByIndex i | None \<Rightarrow> ByLabel key)"

text \<open>\<^verbatim>\<open>str.startswith\<close>.\<close>

definition startswith :: "string \<Rightarrow> string \<Rightarrow> bool" where
  "startswith s pre = (take (length pre) s = pre)"

text \<open>\<^verbatim>\<open>_Http.do_POST\<close>: the remote commands, by request path. The reply is the JSON
  payload, reduced to what distinguishes the answers.\<close>

datatype reply =
  OkAction string | OkVisible bool | OkIgnored | OkPlain
  | OkSelected bool "string option" | NoSuchItem | OkActivated | Unknown404

definition with_reply :: "reply \<Rightarrow> py_error + menu_window \<Rightarrow> py_error + reply \<times> menu_window" where
  "with_reply r x = (case x of Inl err \<Rightarrow> Inl err | Inr w \<Rightarrow> Inr (r, w))"

definition do_POST :: "env \<Rightarrow> string \<Rightarrow> menu_window \<Rightarrow> py_error + reply \<times> menu_window" where
  "do_POST e p w =
     (if p = ''/menu/open'' then with_reply (OkAction ''open'') (open_menu e w)
      else if p = ''/menu/close'' then Inr (OkAction ''close'', close_menu e w)
      else if p = ''/menu/toggle'' then
        (if \<not> visible w then with_reply (OkVisible True) (open_menu e w)
         else Inr (OkVisible False, close_menu e w))
      else if \<not> visible w then Inr (OkIgnored, w)
      else if p = ''/menu/nav/up'' then with_reply OkPlain (nav_up w)
      else if p = ''/menu/nav/down'' then with_reply OkPlain (nav_down w)
      else if p \<in> set [''/menu/enter'', ''/menu/nav/enter'', ''/menu/key/enter'', ''/menu/ok'',
                        ''/menu/select''] then with_reply OkPlain (nav_enter e w)
      else if p = ''/menu/esc'' then Inr (OkPlain, close_menu e w)
      else if p = ''/menu/nav/left'' then
        with_reply OkPlain (if mode w = Guide then guide_left w else nav_up w)
      else if p = ''/menu/nav/right'' then
        with_reply OkPlain (if mode w = Guide then guide_right w else nav_down w)
      else if p = ''/menu/nav/pageup'' then
        with_reply OkPlain (if mode w = Guide then guide_page_up e w else nav_up w)
      else if p = ''/menu/nav/pagedown'' then
        with_reply OkPlain (if mode w = Guide then guide_page_down e w else nav_down w)
      else if p = ''/menu/guide'' then with_reply (OkAction ''guide'') (enter_guide_mode e w)
      else if startswith p ''/menu/select/'' then
        (case select_item (parse_target (drop (length ''/menu/select/'') p)) w of
           (True, w1) \<Rightarrow>
             (case py_index (items w1) (sel w1) of
                Inl err \<Rightarrow> Inl err
              | Inr label \<Rightarrow> Inr (OkSelected True (Some label), w1))
         | (False, w1) \<Rightarrow> Inr (OkSelected False None, w1))
      else if startswith p ''/menu/activate/'' then
        (let key = drop (length ''/menu/activate/'') p
         in if key \<noteq> [] then
              (case select_item (parse_target key) w of
                 (False, w1) \<Rightarrow> Inr (NoSuchItem, w1)
               | (True, w1) \<Rightarrow> with_reply OkActivated (activate_selection e w1))
            else with_reply OkActivated (activate_selection e w))
      else Inr (Unknown404, w))"

text \<open>\<^verbatim>\<open>keyPressEvent\<close>: the raw keys. A key that is not handled is ignored.\<close>

datatype key =
  Key_Escape | Key_Home | Key_Up | Key_Down | Key_Left | Key_Right
  | Key_Return | Key_Enter | Key_PageUp | Key_PageDown | Key_Other

definition keyPressEvent :: "env \<Rightarrow> key \<Rightarrow> menu_window \<Rightarrow> py_error + menu_window" where
  "keyPressEvent e k w =
     (if k = Key_Escape then Inr (close_menu e w)
      else if k = Key_Home then (if visible w then Inr (close_menu e w) else open_menu e w)
      else if \<not> visible w then Inr w
      else case mode w of
        Root \<Rightarrow>
          if k \<in> {Key_Up, Key_Left} then nav_up w
          else if k \<in> {Key_Down, Key_Right} then nav_down w
          else if k \<in> {Key_Return, Key_Enter} then nav_enter e w
          else if k = Key_PageUp then
            (case py_mod (sel w - 2) (int (length (items w))) of
               Inl err \<Rightarrow> Inl err
             | Inr i \<Rightarrow> Inr (w\<lparr>sel := i, sel_last := i\<rparr>))
          else if k = Key_PageDown then
            (case py_mod (sel w + 2) (int (length (items w))) of
               Inl err \<Rightarrow> Inl err
             | Inr i \<Rightarrow> Inr (w\<lparr>sel := i, sel_last := i\<rparr>))
          else Inr w
      | Guide \<Rightarrow>
          if k = Key_Left then guide_left w
          else if k = Key_Right then guide_right w
          else if k \<in> {Key_PageUp, Key_Up} then guide_page_up e w
          else if k \<in> {Key_PageDown, Key_Down} then guide_page_down e w
          else if k \<in> {Key_Return, Key_Enter} then nav_enter e w
          else Inr w)"

section \<open>Sequences of operations and the properties stated about them\<close>

text \<open>Pressing the same key \<open>n\<close> times; an exception ends the sequence.\<close>

fun repeat_op :: "(menu_window \<Rightarrow> py_error + menu_window) \<Rightarrow> nat \<Rightarrow> menu_window \<Rightarrow> py_error + menu_window" where
  "repeat_op f 0 w = Inr w"
| "repeat_op f (Suc n) w = (case repeat_op f n w of Inl err \<Rightarrow> Inl err | Inr w' \<Rightarrow> f w')"

text \<open>The four guide navigation operations, each in the environment it is called in.\<close>

datatype guide_op = GLeft | GRight | GPageUp | GPageDown

fun guide_step :: "env \<times> guide_op \<Rightarrow> menu_window \<Rightarrow> py_error + menu_window" where
  "guide_step (e, GLeft) w = guide_left w"
| "guide_step (e, GRight) w = guide_right w"
| "guide_step (e, GPageUp) w = guide_page_up e w"
| "guide_step (e, GPageDown) w = guide_page_down e w"

fun run_guide :: "(env \<times> guide_op) list \<Rightarrow> menu_window \<Rightarrow> py_error + menu_window" where
  "run_guide [] w = Inr w"
| "run_guide (x # xs) w = (case guide_step x w of Inl err \<Rightarrow> Inl err | Inr w' \<Rightarrow> run_guide xs w')"

text \<open>The guide cursor: selected row, column, top visible row.\<close>

definition guide_cursor :: "menu_window \<Rightarrow> int \<times> int \<times> int" where
  "guide_cursor w = (g_sel_row w, g_sel_col w, g_row_offset w)"

definition guide_inv :: "menu_window \<Rightarrow> bool" where
  "guide_inv w =
     (0 \<le> g_sel_row w \<and> g_sel_row w \<le> int (length (guide_rows w)) - 1
      \<and> 0 \<le> g_sel_col w \<and> 0 \<le> g_row_offset w
      \<and> g_row_offset w \<le> g_sel_row w \<and> g_sel_row w < g_row_offset w + g_max_visible w)"

text \<open>The number of events of the selected row (0 when the row index is out of range).\<close>

definition current_event_count :: "menu_window \<Rightarrow> int" where
  "current_event_count w =
     (case py_index (guide_rows w) (g_sel_row w) of
        Inl err \<Rightarrow> 0 | Inr row \<Rightarrow> int (length (ch_events row)))"

text \<open>The calls made on one helper object, and the helper exiting by itself.\<close>

datatype preview_op = Start string int | Stop | Died

fun preview_step :: "env \<times> preview_op \<Rightarrow> preview_widget \<times> os_procs \<Rightarrow> preview_widget \<times> os_procs" where
  "preview_step (e, Start p off) st = start_preview e p off st"
| "preview_step (e, Stop) st = stop_preview e st"
| "preview_step (e, Died) (pw, os) =
     (pw, case proc pw of None \<Rightarrow> os | Some q \<Rightarrow> exited q os)"

datatype audio_op = AStart | AStop | ADied

fun audio_step :: "env \<times> audio_op \<Rightarrow> menu_audio \<times> os_procs \<Rightarrow> menu_audio \<times> os_procs" where
  "audio_step (e, AStart) st = audio_start e st"
| "audio_step (e, AStop) st = audio_stop e st"
| "audio_step (e, ADied) (ma, os) =
     (ma, case audio_proc ma of None \<Rightarrow> os | Some q \<Rightarrow> exited q os)"

text \<open>The live preview processes and the live audio processes of a process table.\<close>

fun is_preview :: "pid \<times> mpv_args \<Rightarrow> bool" where
  "is_preview (p, PreviewArgs f off) = True"
| "is_preview (p, AudioArgs f v) = False"

definition preview_procs :: "os_procs \<Rightarrow> (pid \<times> mpv_args) list" where
  "preview_procs os = filter is_preview (live os)"

definition audio_procs :: "os_procs \<Rightarrow> (pid \<times> mpv_args) list" where
  "audio_procs os = filter (\<lambda>q. \<not> is_preview q) (live os)"

text \<open>A handle owns the live processes of its kind: there is none, or there is exactly
  one and it is the handle's.\<close>

fun owned_ok :: "pid option \<Rightarrow> (pid \<times> mpv_args) list \<Rightarrow> bool" where
  "owned_ok pr [] = True"
| "owned_ok pr [q] = (pr = Some (fst q))"
| "owned_ok pr (q # r # qs) = False"

text \<open>A table without the process of a handle; and the property that no content the
  table has ever had held two processes of one kind.\<close>

definition without :: "pid option \<Rightarrow> (pid \<times> mpv_args) list \<Rightarrow> (pid \<times> mpv_args) list" where
  "without pr l = (case pr of None \<Rightarrow> l | Some p \<Rightarrow> filter (\<lambda>q. fst q \<noteq> p) l)"

definition is_audio :: "pid \<times> mpv_args \<Rightarrow> bool" where
  "is_audio q = (\<not> is_preview q)"

definition never_two :: "(pid \<times> mpv_args \<Rightarrow> bool) \<Rightarrow> os_procs \<Rightarrow> bool" where
  "never_two P os = list_all (\<lambda>l. length (filter P l) \<le> 1) (history os)"

definition procs_owned :: "menu_window \<Rightarrow> bool" where
  "procs_owned w =
     (owned_ok (proc (preview w)) (preview_procs (os_tab w))
      \<and> owned_ok (audio_proc (menu_audio w)) (audio_procs (os_tab w)))"

section \<open>A small schedule and environment\<close>

text \<open>
  Two channels: \<^verbatim>\<open>2\<close> with three consecutive programmes, and \<^verbatim>\<open>10\<close> with one programme and
  one row whose end time equals its start time. The environment reads the clock at 500,
  finds every media file, can start \<^verbatim>\<open>mpv\<close>, and the upstream player answers.
\<close>

definition ex_row :: "string \<Rightarrow> int \<Rightarrow> int \<Rightarrow> string \<Rightarrow> sched_row" where
  "ex_row c s t n =
     \<lparr>channel_id = c, start_utc = s, end_utc = t, title = Some n,
      path = Some (''/media/'' @ n @ ''.mp4''), channel_name = None\<rparr>"

definition ex_table :: sched_table where
  "ex_table =
     \<lparr>has_channel_name = False, has_title = True, has_path = True,
      rows = [ex_row ''10'' 0 5000 ''Sport'', ex_row ''2'' 0 1000 ''News'',
              ex_row ''2'' 1000 2000 ''Film'', ex_row ''10'' 6000 6000 ''Void'',
              ex_row ''2'' 2000 3000 ''Late'']\<rparr>"

definition ex_db :: sched_db where
  "ex_db = \<lparr>db_exists = True, connect_ok = True, schedule_events = Some ex_table\<rparr>"

definition ex_env :: env where
  "ex_env =
     \<lparr>clock = 500, sched = ex_db, file_exists = (\<lambda>p. True), spawn_ok = True,
      term_exits = True, pause_ok = True, live_ok = True, status_channel = Some ''2'',
      status_num = ''2'', status_name = []\<rparr>"

definition ex_os :: os_procs where
  "ex_os = \<lparr>live = [], next_pid = 100, history = []\<rparr>"

definition ex_window :: menu_window where
  "ex_window = MenuWindow ''/static/audio/menu.mp3'' 45 ex_os"

text \<open>A store that exists but cannot be opened, and one channel with seven programmes
  that all start after the instant 0.\<close>

definition ex_db_locked :: sched_db where
  "ex_db_locked = \<lparr>db_exists = True, connect_ok = False, schedule_events = Some ex_table\<rparr>"

definition ex_db_future :: sched_db where
  "ex_db_future =
     \<lparr>db_exists = True, connect_ok = True,
      schedule_events = Some
        \<lparr>has_channel_name = False, has_title = True, has_path = False,
         rows = [ex_row ''7'' 100 200 ''A'', ex_row ''7'' 200 300 ''B'', ex_row ''7'' 300 400 ''C'',
                 ex_row ''7'' 400 500 ''D'', ex_row ''7'' 500 600 ''E'', ex_row ''7'' 600 700 ''F'',
                 ex_row ''7'' 700 800 ''G'']\<rparr>\<rparr>"

text \<open>Entering the guide and then navigating; whether the column points at an event of
  the selected row.\<close>

definition enter_then_run :: "env \<Rightarrow> (env \<times> guide_op) list \<Rightarrow> menu_window \<Rightarrow> py_error + menu_window" where
  "enter_then_run e ops w =
     (case enter_guide_mode e w of Inl err \<Rightarrow> Inl err | Inr w1 \<Rightarrow> run_guide ops w1)"

definition col_in_range :: "menu_window \<Rightarrow> bool" where
  "col_in_range w = (0 \<le> g_sel_col w \<and> g_sel_col w \<le> current_event_count w - 1)"

definition ex_guide_ops :: "(env \<times> guide_op) list" where
  "ex_guide_ops = [(ex_env, GRight), (ex_env, GRight), (ex_env, GPageDown)]"

text \<open>The number of listed events that start after the instant \<open>now\<close>.\<close>

definition upcoming_count :: "int \<Rightarrow> event list \<Rightarrow> nat" where
  "upcoming_count now evs = length (filter (\<lambda>ev. now < ev_start ev) evs)"

text \<open>The current event of a list, as the specification defines it: the greatest start
  not after \<open>now\<close> among the events that end after \<open>now\<close>.\<close>

definition current_event :: "int \<Rightarrow> event list \<Rightarrow> event option" where
  "current_event now evs =
     fetchone (order_by_desc ev_start (filter (\<lambda>ev. ev_start ev \<le> now \<and> now < ev_end ev) evs))"

text \<open>The placeholder event of a channel without rows.\<close>

definition placeholder :: "int \<Rightarrow> event" where
  "placeholder now_ts = \<lparr>ev_title = DASH, ev_start = now_ts, ev_end = now_ts + 3600\<rparr>"

text \<open>The example window after \<^verbatim>\<open>open_menu\<close> in the example environment: the preview plays
  the current programme of channel 2 from second 500, the audio loops.\<close>

definition ex_open :: menu_window where
  "ex_open =
     ex_window\<lparr>visible := True,
       preview := \<lparr>proc = Some 100\<rparr>,
       menu_audio := (menu_audio ex_window)\<lparr>audio_proc := Some 101\<rparr>,
       pip_footer := \<lparr>ft_num = ''2'', ft_name = ''Channel 2'', ft_shown = True\<rparr>,
       os_tab := \<lparr>live = [(100, PreviewArgs ''/media/News.mp4'' 500),
                            (101, AudioArgs ''/static/audio/menu.mp3'' 45)],
                  next_pid = 102,
                  history = [[(100, PreviewArgs ''/media/News.mp4'' 500)],
                             [(100, PreviewArgs ''/media/News.mp4'' 500),
                              (101, AudioArgs ''/static/audio/menu.mp3'' 45)]]\<rparr>,
       sent := [PostPause, GetStatus, GetStatus]\<rparr>"

text \<open>What reaches the window: a remote command (a request path) or a raw key, each in
  the environment of its moment. An exception ends the run.\<close>

datatype input = Http string | KeyPress key

fun window_step :: "env \<times> input \<Rightarrow> menu_window \<Rightarrow> py_error + menu_window" where
  "window_step (e, Http p) w = map_sum id snd (do_POST e p w)"
| "window_step (e, KeyPress k) w = keyPressEvent e k w"

fun run_window :: "(env \<times> input) list \<Rightarrow> menu_window \<Rightarrow> py_error + menu_window" where
  "run_window [] w = Inr w"
| "run_window (x # xs) w =
     (case window_step x w of Inl err \<Rightarrow> Inl err | Inr w' \<Rightarrow> run_window xs w')"

section \<open>Root menu navigation\<close>

lemma nav_down_Inr:
  "mode w = Root \<Longrightarrow> items w \<noteq> [] \<Longrightarrow>
   nav_down w = Inr (w\<lparr>sel := (sel w + 1) mod int (length (items w)),
                        sel_last := (sel w + 1) mod int (length (items w))\<rparr>)"
  by (simp add: nav_down_def py_mod_def)

lemma nav_up_Inr:
  "mode w = Root \<Longrightarrow> items w \<noteq> [] \<Longrightarrow>
   nav_up w = Inr (w\<lparr>sel := (sel w - 1) mod int (length (items w)),
                      sel_last := (sel w - 1) mod int (length (items w))\<rparr>)"
  by (simp add: nav_up_def py_mod_def)

lemma repeat_nav_down:
  assumes "mode w = Root" and "items w \<noteq> []"
  shows "\<exists>w'. repeat_op nav_down n w = Inr w' \<and> mode w' = Root \<and> items w' = items w
           \<and> sel w' = (if n = 0 then sel w else (sel w + int n) mod int (length (items w)))
           \<and> (0 < n \<longrightarrow> sel_last w' = sel w')"
proof (induction n)
  case 0
  show ?case using assms by simp
next
  case (Suc n)
  then obtain w1 where w1: "repeat_op nav_down n w = Inr w1" "mode w1 = Root" "items w1 = items w"
    "sel w1 = (if n = 0 then sel w else (sel w + int n) mod int (length (items w)))"
    by blast
  have ne: "items w1 \<noteq> []" using w1 assms by simp
  have "(sel w1 + 1) mod int (length (items w)) = (sel w + int (Suc n)) mod int (length (items w))"
    using w1(4) by (cases "n = 0") (simp_all add: mod_simps ac_simps)
  then show ?case
    using w1 nav_down_Inr [OF w1(2) ne] by simp
qed

lemma repeat_nav_up:
  assumes "mode w = Root" and "items w \<noteq> []"
  shows "\<exists>w'. repeat_op nav_up n w = Inr w' \<and> mode w' = Root \<and> items w' = items w
           \<and> sel w' = (if n = 0 then sel w else (sel w - int n) mod int (length (items w)))
           \<and> (0 < n \<longrightarrow> sel_last w' = sel w')"
proof (induction n)
  case 0
  show ?case using assms by simp
next
  case (Suc n)
  then obtain w1 where w1: "repeat_op nav_up n w = Inr w1" "mode w1 = Root" "items w1 = items w"
    "sel w1 = (if n = 0 then sel w else (sel w - int n) mod int (length (items w)))"
    by blast
  have ne: "items w1 \<noteq> []" using w1 assms by simp
  have "(sel w1 - 1) mod int (length (items w)) = (sel w - int (Suc n)) mod int (length (items w))"
    using w1(4) by (cases "n = 0") (simp_all add: mod_simps algebra_simps)
  then show ?case
    using w1 nav_up_Inr [OF w1(2) ne] by simp
qed

text \<open>
  C8. In root mode, with at least one menu item and the cursor at index 0, pressing down
  \<open>n\<close> times raises nothing and leaves the cursor at \<open>n mod itemCount\<close>; pressing up \<open>n\<close>
  times leaves it at \<open>(-n) mod itemCount\<close>. After at least one press the last-selected
  index equals the cursor.
\<close>

theorem root_nav_wraparound:
  assumes "mode w = Root" and "items w \<noteq> []" and "sel w = 0"
  shows "\<exists>d u. repeat_op nav_down n w = Inr d \<and> repeat_op nav_up n w = Inr u
           \<and> sel d = int n mod int (length (items w))
           \<and> sel u = (- int n) mod int (length (items w))
           \<and> (0 < n \<longrightarrow> sel_last d = sel d \<and> sel_last u = sel u)"
  using repeat_nav_down [OF assms(1,2), of n] repeat_nav_up [OF assms(1,2), of n] assms(3)
  by (cases "n = 0") auto

theorem root_nav_wraparound_witness:
  "\<exists>d u. repeat_op nav_down 6 (ex_window) = Inr d
       \<and> repeat_op nav_up 6 (ex_window) = Inr u
       \<and> sel d = 2 \<and> sel u = 2 \<and> sel_last d = 2 \<and> sel_last u = 2"
proof -
  let ?w = "ex_window"
  have h: "mode ?w = Root" "items ?w \<noteq> []" "sel ?w = 0" "length (items ?w) = 4"
    by (simp_all add: ex_window_def MenuWindow_def MENU_ITEMS_def)
  from root_nav_wraparound [OF h(1,2,3), of 6]
  obtain d u where "repeat_op nav_down 6 ?w = Inr d" "repeat_op nav_up 6 ?w = Inr u"
    "sel d = 2" "sel u = 2" "sel_last d = sel d" "sel_last u = sel u"
    unfolding h(4) by auto
  then show ?thesis by simp
qed

section \<open>Remote page commands and raw page keys in root mode\<close>

text \<open>
  C5. In root mode the remote commands \<^verbatim>\<open>nav/pageup\<close> and \<^verbatim>\<open>nav/pagedown\<close> do exactly what
  \<^verbatim>\<open>nav/up\<close> and \<^verbatim>\<open>nav/down\<close> do; on a visible menu with at least one item that is a step of
  one, modulo the item count, while the raw keys PageUp and PageDown step by two.
\<close>

theorem root_page_commands_alias_single_step:
  assumes "mode w = Root"
  shows "do_POST e ''/menu/nav/pageup'' w = do_POST e ''/menu/nav/up'' w
       \<and> do_POST e ''/menu/nav/pagedown'' w = do_POST e ''/menu/nav/down'' w
       \<and> (visible w \<and> items w \<noteq> [] \<longrightarrow>
            do_POST e ''/menu/nav/pageup'' w =
              Inr (OkPlain, w\<lparr>sel := (sel w - 1) mod int (length (items w)),
                                sel_last := (sel w - 1) mod int (length (items w))\<rparr>)
          \<and> do_POST e ''/menu/nav/pagedown'' w =
              Inr (OkPlain, w\<lparr>sel := (sel w + 1) mod int (length (items w)),
                                sel_last := (sel w + 1) mod int (length (items w))\<rparr>)
          \<and> keyPressEvent e Key_PageUp w =
              Inr (w\<lparr>sel := (sel w - 2) mod int (length (items w)),
                       sel_last := (sel w - 2) mod int (length (items w))\<rparr>)
          \<and> keyPressEvent e Key_PageDown w =
              Inr (w\<lparr>sel := (sel w + 2) mod int (length (items w)),
                       sel_last := (sel w + 2) mod int (length (items w))\<rparr>))"
proof -
  have a: "do_POST e ''/menu/nav/pageup'' w = do_POST e ''/menu/nav/up'' w"
    using assms by (simp add: do_POST_def)
  have b: "do_POST e ''/menu/nav/pagedown'' w = do_POST e ''/menu/nav/down'' w"
    using assms by (simp add: do_POST_def)
  have c: "do_POST e ''/menu/nav/up'' w =
              Inr (OkPlain, w\<lparr>sel := (sel w - 1) mod int (length (items w)),
                                sel_last := (sel w - 1) mod int (length (items w))\<rparr>)"
    if "visible w" "items w \<noteq> []"
    using that nav_up_Inr [OF assms that(2)] by (simp add: do_POST_def with_reply_def)
  have d: "do_POST e ''/menu/nav/down'' w =
              Inr (OkPlain, w\<lparr>sel := (sel w + 1) mod int (length (items w)),
                                sel_last := (sel w + 1) mod int (length (items w))\<rparr>)"
    if "visible w" "items w \<noteq> []"
    using that nav_down_Inr [OF assms that(2)] by (simp add: do_POST_def with_reply_def)
  have k: "keyPressEvent e Key_PageUp w =
              Inr (w\<lparr>sel := (sel w - 2) mod int (length (items w)),
                       sel_last := (sel w - 2) mod int (length (items w))\<rparr>)"
          "keyPressEvent e Key_PageDown w =
              Inr (w\<lparr>sel := (sel w + 2) mod int (length (items w)),
                       sel_last := (sel w + 2) mod int (length (items w))\<rparr>)"
    if "visible w" "items w \<noteq> []"
    using that assms by (simp_all add: keyPressEvent_def py_mod_def)
  show ?thesis using a b c d k by simp
qed

theorem root_page_commands_alias_single_step_witness:
  "do_POST ex_env ''/menu/nav/pageup'' (ex_window\<lparr>visible := True\<rparr>)
     = Inr (OkPlain, ex_window
              \<lparr>visible := True, sel := 3, sel_last := 3\<rparr>)
   \<and> keyPressEvent ex_env Key_PageUp (ex_window\<lparr>visible := True\<rparr>)
     = Inr (ex_window
              \<lparr>visible := True, sel := 2, sel_last := 2\<rparr>)"
proof -
  let ?w = "ex_window\<lparr>visible := True\<rparr>"
  have h: "mode ?w = Root" "visible ?w" "items ?w \<noteq> []" "length (items ?w) = 4" "sel ?w = 0"
    by (simp_all add: ex_window_def MenuWindow_def MENU_ITEMS_def)
  have "do_POST ex_env ''/menu/nav/pageup'' ?w =
              Inr (OkPlain, ?w\<lparr>sel := (sel ?w - 1) mod int (length (items ?w)),
                                sel_last := (sel ?w - 1) mod int (length (items ?w))\<rparr>)"
       "keyPressEvent ex_env Key_PageUp ?w =
              Inr (?w\<lparr>sel := (sel ?w - 2) mod int (length (items ?w)),
                       sel_last := (sel ?w - 2) mod int (length (items ?w))\<rparr>)"
    using root_page_commands_alias_single_step [OF h(1), of ex_env] h(2,3) by blast+
  then show ?thesis unfolding h(4,5) by simp
qed

section \<open>Guide navigation\<close>

lemma resolve_never_raises:
  "\<exists>r. resolve_now_path_and_offset db now cid = Inr r"
  by (cases "resolve_body db now cid") (simp_all add: resolve_now_path_and_offset_def)

lemma start_preview_from_channel_shape:
  "\<exists>pw os'. start_preview_from_channel e cid w = Inr (w\<lparr>preview := pw, os_tab := os'\<rparr>)"
proof -
  have same: "w\<lparr>preview := preview w, os_tab := os_tab w\<rparr> = w" by simp
  obtain r where r: "resolve_now_path_and_offset (sched e) (clock e) cid = Inr r"
    using resolve_never_raises by blast
  show ?thesis
  proof (cases r)
    case None
    have "start_preview_from_channel e cid w = Inr (w\<lparr>preview := preview w, os_tab := os_tab w\<rparr>)"
      unfolding same using r None by (simp add: start_preview_from_channel_def)
    then show ?thesis by (intro exI)
  next
    case (Some po)
    obtain p off where po: "po = (p, off)" by (cases po)
    show ?thesis
    proof (cases "file_exists e p")
      case False
      have "start_preview_from_channel e cid w = Inr (w\<lparr>preview := preview w, os_tab := os_tab w\<rparr>)"
        unfolding same using r Some po False by (simp add: start_preview_from_channel_def)
      then show ?thesis by (intro exI)
    next
      case True
      obtain pw os' where st: "start_preview e p off (preview w, os_tab w) = (pw, os')"
        by (cases "start_preview e p off (preview w, os_tab w)")
      have "start_preview_from_channel e cid w = Inr (w\<lparr>preview := pw, os_tab := os'\<rparr>)"
        using r Some po True st by (simp add: start_preview_from_channel_def w_start_preview_def)
      then show ?thesis by (intro exI)
    qed
  qed
qed

lemma py_index_in_range:
  "0 \<le> i \<Longrightarrow> i < int (length xs) \<Longrightarrow> py_index xs i = Inr (xs ! nat i)"
  by (simp add: py_index_def)

lemma guide_current_channel_id_rows:
  assumes "guide_rows w \<noteq> []"
  shows "\<exists>cid. guide_current_channel_id w = Inr (Some cid)"
proof -
  let ?i = "max 0 (min (g_sel_row w) (int (length (guide_rows w)) - 1))"
  have "0 \<le> ?i" "?i < int (length (guide_rows w))" using assms by auto
  then have "py_index (guide_rows w) ?i = Inr (guide_rows w ! nat ?i)"
    by (rule py_index_in_range)
  then show ?thesis using assms by (simp add: guide_current_channel_id_def)
qed

lemma guide_reanchor_shape:
  assumes "0 \<le> g_sel_row w" and "g_sel_row w < int (length (guide_rows w))"
  shows "\<exists>pw os' ft. guide_reanchor e w = Inr (w\<lparr>preview := pw, os_tab := os', pip_footer := ft\<rparr>)"
proof -
  have ne: "guide_rows w \<noteq> []" using assms by auto
  then obtain cid where cid: "guide_current_channel_id w = Inr (Some cid)"
    using guide_current_channel_id_rows by blast
  have same: "w\<lparr>preview := preview w, os_tab := os_tab w, pip_footer := pip_footer w\<rparr> = w"
    by simp
  show ?thesis
  proof (cases "cid = []")
    case True
    have "guide_reanchor e w =
            Inr (w\<lparr>preview := preview w, os_tab := os_tab w, pip_footer := pip_footer w\<rparr>)"
      unfolding same using cid True by (simp add: guide_reanchor_def)
    then show ?thesis by (intro exI)
  next
    case False
    obtain pw os' where sp: "start_preview_from_channel e cid w = Inr (w\<lparr>preview := pw, os_tab := os'\<rparr>)"
      using start_preview_from_channel_shape by blast
    have ix: "py_index (guide_rows w) (g_sel_row w) = Inr (guide_rows w ! nat (g_sel_row w))"
      using assms by (rule py_index_in_range)
    have "guide_reanchor e w =
            Inr (w\<lparr>preview := pw, os_tab := os',
                   pip_footer := set_info cid (ch_name (guide_rows w ! nat (g_sel_row w))) (pip_footer w)\<rparr>)"
      using cid False sp ix by (simp add: guide_reanchor_def)
    then show ?thesis by (intro exI)
  qed
qed

lemma guide_page_up_shape:
  assumes "mode w = Guide" and "guide_rows w \<noteq> []" and "g_sel_row w < int (length (guide_rows w))"
  shows "\<exists>pw os' ft. guide_page_up e w =
           Inr (w\<lparr>g_sel_row := max 0 (g_sel_row w - 1),
                   g_row_offset := (if max 0 (g_sel_row w - 1) < g_row_offset w
                                    then max 0 (g_sel_row w - 1) else g_row_offset w),
                   preview := pw, os_tab := os', pip_footer := ft\<rparr>)"
proof -
  let ?w2 = "w\<lparr>g_sel_row := max 0 (g_sel_row w - 1),
                g_row_offset := (if max 0 (g_sel_row w - 1) < g_row_offset w
                                 then max 0 (g_sel_row w - 1) else g_row_offset w)\<rparr>"
  have eq: "guide_page_up e w = guide_reanchor e ?w2"
    using assms by (simp add: guide_page_up_def Let_def)
  have "0 \<le> g_sel_row ?w2" "g_sel_row ?w2 < int (length (guide_rows ?w2))"
    using assms by auto
  from guide_reanchor_shape [OF this, of e] show ?thesis unfolding eq .
qed

lemma guide_page_down_shape:
  assumes "mode w = Guide" and "guide_rows w \<noteq> []" and "0 \<le> g_sel_row w"
  shows "\<exists>pw os' ft. guide_page_down e w =
           Inr (w\<lparr>g_sel_row := min (int (length (guide_rows w)) - 1) (g_sel_row w + 1),
                   g_row_offset :=
                     (if min (int (length (guide_rows w)) - 1) (g_sel_row w + 1)
                           \<ge> g_row_offset w + g_max_visible w
                      then min (int (length (guide_rows w)) - 1) (g_sel_row w + 1) - g_max_visible w + 1
                      else g_row_offset w),
                   preview := pw, os_tab := os', pip_footer := ft\<rparr>)"
proof -
  let ?r = "min (int (length (guide_rows w)) - 1) (g_sel_row w + 1)"
  let ?w2 = "w\<lparr>g_sel_row := ?r,
                g_row_offset := (if ?r \<ge> g_row_offset w + g_max_visible w
                                 then ?r - g_max_visible w + 1 else g_row_offset w)\<rparr>"
  have eq: "guide_page_down e w = guide_reanchor e ?w2"
    using assms by (simp add: guide_page_down_def Let_def)
  have "0 \<le> g_sel_row ?w2" "g_sel_row ?w2 < int (length (guide_rows ?w2))"
    using assms by auto
  from guide_reanchor_shape [OF this, of e] show ?thesis unfolding eq .
qed

lemma enter_guide_mode_empty:
  assumes "load_guide_rows e = []"
  shows "enter_guide_mode e w =
           Inr (w\<lparr>guide_rows := [], g_sel_row := 0, g_sel_col := 0, g_row_offset := 0, mode := Guide\<rparr>)"
  using assms by (simp add: enter_guide_mode_def guide_current_channel_id_def)

lemma guide_step_empty:
  assumes "mode w = Guide" and "guide_rows w = []" and "g_sel_col w = 0"
  shows "guide_step x w = Inr w"
proof -
  obtain e op where x: "x = (e, op)" by (cases x)
  have "w\<lparr>g_sel_col := 0\<rparr> = w" using assms(3) by (cases w) simp
  then show ?thesis
    using assms x
    by (cases op) (simp_all add: guide_left_def guide_right_def guide_page_up_def guide_page_down_def)
qed

lemma run_guide_empty:
  assumes "mode w = Guide" and "guide_rows w = []" and "g_sel_col w = 0"
  shows "run_guide ops w = Inr w"
  by (induction ops) (simp_all add: guide_step_empty [OF assms])

text \<open>
  C9. When the snapshot loaded on entering the guide is empty, entering raises nothing and
  leaves the cursor at row 0, column 0, offset 0; after that every sequence of
  \<^verbatim>\<open>guide_left\<close>, \<^verbatim>\<open>guide_right\<close>, \<^verbatim>\<open>guide_page_up\<close>, \<^verbatim>\<open>guide_page_down\<close> raises nothing and
  leaves the window, hence the cursor, as it is.
\<close>

theorem empty_guide_navigation_is_noop:
  assumes "load_guide_rows e = []"
  shows "\<exists>w1. enter_guide_mode e w = Inr w1 \<and> guide_cursor w1 = (0, 0, 0) \<and> guide_rows w1 = []
           \<and> mode w1 = Guide \<and> run_guide ops w1 = Inr w1"
proof -
  let ?w1 = "w\<lparr>guide_rows := [], g_sel_row := 0, g_sel_col := 0, g_row_offset := 0, mode := Guide\<rparr>"
  have "enter_guide_mode e w = Inr ?w1" using assms by (rule enter_guide_mode_empty)
  moreover have "guide_cursor ?w1 = (0, 0, 0)" by (simp add: guide_cursor_def)
  moreover have "run_guide ops ?w1 = Inr ?w1" by (rule run_guide_empty) simp_all
  ultimately show ?thesis by simp
qed

theorem empty_guide_navigation_is_noop_witness:
  "load_guide_rows (ex_env\<lparr>sched := ex_db_locked\<rparr>) = []
   \<and> (\<exists>w1. enter_guide_mode (ex_env\<lparr>sched := ex_db_locked\<rparr>) ex_window = Inr w1
          \<and> guide_cursor w1 = (0, 0, 0) \<and> guide_rows w1 = [] \<and> mode w1 = Guide
          \<and> run_guide [(ex_env, GRight), (ex_env, GPageDown), (ex_env, GLeft), (ex_env, GPageUp)] w1
              = Inr w1)"
proof -
  have h: "load_guide_rows (ex_env\<lparr>sched := ex_db_locked\<rparr>) = []"
    by (simp add: load_guide_rows_def load_channels_and_events_def connect_def ex_db_locked_def)
  from empty_guide_navigation_is_noop [OF h, of ex_window
      "[(ex_env, GRight), (ex_env, GPageDown), (ex_env, GLeft), (ex_env, GPageUp)]"] h
  show ?thesis by blast
qed

lemma enter_guide_mode_shape:
  assumes "load_guide_rows e \<noteq> []"
  shows "\<exists>pw os' ft. enter_guide_mode e w =
           Inr (w\<lparr>guide_rows := load_guide_rows e, g_sel_row := 0, g_sel_col := 0,
                   g_row_offset := 0, mode := Guide,
                   preview := pw, os_tab := os', pip_footer := ft\<rparr>)"
proof -
  let ?w1 = "w\<lparr>guide_rows := load_guide_rows e, g_sel_row := 0, g_sel_col := 0,
                g_row_offset := 0, mode := Guide\<rparr>"
  have ne: "guide_rows ?w1 \<noteq> []" using assms by simp
  then obtain cid where cid: "guide_current_channel_id ?w1 = Inr (Some cid)"
    using guide_current_channel_id_rows by blast
  have same: "?w1\<lparr>preview := preview w, os_tab := os_tab w, pip_footer := pip_footer w\<rparr> = ?w1"
    by simp
  show ?thesis
  proof (cases "cid = []")
    case True
    have "enter_guide_mode e w =
            Inr (?w1\<lparr>preview := preview w, os_tab := os_tab w, pip_footer := pip_footer w\<rparr>)"
      unfolding same using cid True by (simp add: enter_guide_mode_def)
    then show ?thesis by (intro exI)
  next
    case False
    obtain pw os' where sp:
      "start_preview_from_channel e cid ?w1 = Inr (?w1\<lparr>preview := pw, os_tab := os'\<rparr>)"
      using start_preview_from_channel_shape by blast
    have ix: "py_index (load_guide_rows e) 0 = Inr (load_guide_rows e ! 0)"
      using assms by (simp add: py_index_def)
    have "enter_guide_mode e w =
            Inr (?w1\<lparr>preview := pw, os_tab := os',
                     pip_footer := (set_info cid (ch_name (load_guide_rows e ! 0)) (pip_footer w))
                                     \<lparr>ft_shown := True\<rparr>\<rparr>)"
      using cid False sp ix assms by (simp add: enter_guide_mode_def)
    then show ?thesis by (intro exI)
  qed
qed

lemma guide_step_inv:
  assumes "mode w = Guide" and "guide_rows w \<noteq> []" and "0 < g_max_visible w" and "guide_inv w"
  shows "\<exists>w'. guide_step x w = Inr w' \<and> mode w' = Guide \<and> guide_rows w' = guide_rows w
           \<and> g_max_visible w' = g_max_visible w \<and> guide_inv w'"
proof -
  obtain e op where x: "x = (e, op)" by (cases x)
  have r: "0 \<le> g_sel_row w" "g_sel_row w < int (length (guide_rows w))"
    using assms(4) by (simp_all add: guide_inv_def)
  show ?thesis
  proof (cases op)
    case GLeft
    then show ?thesis using assms x by (simp add: guide_left_def guide_inv_def)
  next
    case GRight
    have "py_index (guide_rows w) (g_sel_row w) = Inr (guide_rows w ! nat (g_sel_row w))"
      using r by (rule py_index_in_range)
    then show ?thesis using assms x GRight by (simp add: guide_right_def guide_inv_def Let_def)
  next
    case GPageUp
    obtain pw os' ft where "guide_page_up e w =
           Inr (w\<lparr>g_sel_row := max 0 (g_sel_row w - 1),
                   g_row_offset := (if max 0 (g_sel_row w - 1) < g_row_offset w
                                    then max 0 (g_sel_row w - 1) else g_row_offset w),
                   preview := pw, os_tab := os', pip_footer := ft\<rparr>)"
      using guide_page_up_shape [OF assms(1,2) r(2)] by blast
    then show ?thesis using assms x GPageUp by (auto simp: guide_inv_def)
  next
    case GPageDown
    obtain pw os' ft where "guide_page_down e w =
           Inr (w\<lparr>g_sel_row := min (int (length (guide_rows w)) - 1) (g_sel_row w + 1),
                   g_row_offset :=
                     (if min (int (length (guide_rows w)) - 1) (g_sel_row w + 1)
                           \<ge> g_row_offset w + g_max_visible w
                      then min (int (length (guide_rows w)) - 1) (g_sel_row w + 1) - g_max_visible w + 1
                      else g_row_offset w),
                   preview := pw, os_tab := os', pip_footer := ft\<rparr>)"
      using guide_page_down_shape [OF assms(1,2) r(1)] by blast
    then show ?thesis using assms x GPageDown by (auto simp: guide_inv_def)
  qed
qed

lemma run_guide_inv:
  assumes "mode w = Guide" and "guide_rows w \<noteq> []" and "0 < g_max_visible w" and "guide_inv w"
  shows "\<exists>w'. run_guide ops w = Inr w' \<and> mode w' = Guide \<and> guide_rows w' = guide_rows w
           \<and> g_max_visible w' = g_max_visible w \<and> guide_inv w'"
  using assms
proof (induction ops arbitrary: w)
  case Nil
  then show ?case by simp
next
  case (Cons x xs)
  obtain w1 where w1: "guide_step x w = Inr w1" "mode w1 = Guide" "guide_rows w1 = guide_rows w"
    "g_max_visible w1 = g_max_visible w" "guide_inv w1"
    using guide_step_inv [OF Cons.prems] by blast
  have "\<exists>w'. run_guide xs w1 = Inr w' \<and> mode w' = Guide \<and> guide_rows w' = guide_rows w1
           \<and> g_max_visible w' = g_max_visible w1 \<and> guide_inv w'"
    using Cons.prems w1 by (intro Cons.IH) simp_all
  then show ?case using w1 by auto
qed

text \<open>
  C10. After entering the guide with a non-empty snapshot (and a positive number of
  visible rows), every sequence of guide operations raises nothing and ends in a window
  showing the same snapshot in which the selected row is within the rows, the column and
  the offset are not negative, and the selected row is inside the visible window.
\<close>

theorem guide_cursor_invariant:
  assumes "load_guide_rows e \<noteq> []" and "0 < g_max_visible w"
  shows "\<exists>w1 w2. enter_guide_mode e w = Inr w1 \<and> run_guide ops w1 = Inr w2
           \<and> guide_rows w2 = load_guide_rows e
           \<and> 0 \<le> g_sel_row w2 \<and> g_sel_row w2 \<le> int (length (guide_rows w2)) - 1
           \<and> 0 \<le> g_sel_col w2 \<and> 0 \<le> g_row_offset w2
           \<and> g_row_offset w2 \<le> g_sel_row w2
           \<and> g_sel_row w2 < g_row_offset w2 + g_max_visible w2"
proof -
  obtain pw os' ft where en: "enter_guide_mode e w =
           Inr (w\<lparr>guide_rows := load_guide_rows e, g_sel_row := 0, g_sel_col := 0,
                   g_row_offset := 0, mode := Guide,
                   preview := pw, os_tab := os', pip_footer := ft\<rparr>)"
    using enter_guide_mode_shape [OF assms(1)] by blast
  let ?w1 = "w\<lparr>guide_rows := load_guide_rows e, g_sel_row := 0, g_sel_col := 0,
                g_row_offset := 0, mode := Guide,
                preview := pw, os_tab := os', pip_footer := ft\<rparr>"
  have h: "mode ?w1 = Guide" "guide_rows ?w1 \<noteq> []" "0 < g_max_visible ?w1" "guide_inv ?w1"
    using assms by (simp_all add: guide_inv_def)
  obtain w2 where w2: "run_guide ops ?w1 = Inr w2" "guide_rows w2 = guide_rows ?w1" "guide_inv w2"
    using run_guide_inv [OF h] by blast
  have "guide_rows w2 = load_guide_rows e" using w2(2) by simp
  then show ?thesis using en w2(1,3) unfolding guide_inv_def by blast
qed

lemma ex_load:
  "load_channels_and_events ex_db 500 = Inr
    [\<lparr>ch_id = ''2'', ch_name = ''Channel 2'',
        ch_events = [\<lparr>ev_title = ''News'', ev_start = 0, ev_end = 1000\<rparr>,
                     \<lparr>ev_title = ''Film'', ev_start = 1000, ev_end = 2000\<rparr>,
                     \<lparr>ev_title = ''Late'', ev_start = 2000, ev_end = 3000\<rparr>]\<rparr>,
     \<lparr>ch_id = ''10'', ch_name = ''Channel 10'',
        ch_events = [\<lparr>ev_title = ''Sport'', ev_start = 0, ev_end = 5000\<rparr>,
                     \<lparr>ev_title = ''Void'', ev_start = 6000, ev_end = 6060\<rparr>]\<rparr>]"
  by code_simp

lemma ex_load_guide_rows: "length (load_guide_rows ex_env) = 2"
  by (simp add: load_guide_rows_def ex_env_def ex_load)

theorem guide_cursor_invariant_witness:
  "load_guide_rows ex_env \<noteq> [] \<and> 0 < g_max_visible ex_window
   \<and> (\<exists>w1 w2. enter_guide_mode ex_env ex_window = Inr w1 \<and> run_guide ex_guide_ops w1 = Inr w2
          \<and> guide_rows w2 = load_guide_rows ex_env
          \<and> 0 \<le> g_sel_row w2 \<and> g_sel_row w2 \<le> int (length (guide_rows w2)) - 1
          \<and> 0 \<le> g_sel_col w2 \<and> 0 \<le> g_row_offset w2
          \<and> g_row_offset w2 \<le> g_sel_row w2
          \<and> g_sel_row w2 < g_row_offset w2 + g_max_visible w2)"
proof -
  have h: "load_guide_rows ex_env \<noteq> []" "0 < g_max_visible ex_window"
    using ex_load_guide_rows by (auto simp: ex_window_def MenuWindow_def GUIDE_MAX_ROWS_def)
  from guide_cursor_invariant [OF h, of ex_guide_ops] h show ?thesis by blast
qed

section \<open>The column cursor across row changes\<close>

text \<open>
  C1, as stated, fails: with the example schedule, entering the guide, moving right twice
  in the first row (three events) and then one row down leaves the cursor at row 1,
  column 2, while row 1 has two events; the column was not clamped to 1.
\<close>

theorem column_not_reclamped_counterexample:
  "map_sum id guide_cursor (enter_then_run ex_env ex_guide_ops ex_window) = Inr (1, 2, 0)
   \<and> map_sum id current_event_count (enter_then_run ex_env ex_guide_ops ex_window) = Inr 2
   \<and> map_sum id col_in_range (enter_then_run ex_env ex_guide_ops ex_window) = Inr False"
  by code_simp

text \<open>
  C1, amended. In guide mode on a non-empty snapshot with the selected row within the
  rows, \<^verbatim>\<open>guide_page_up\<close> and \<^verbatim>\<open>guide_page_down\<close> raise nothing and leave the column cursor
  exactly as it was: it persists and is not clamped by the row change, so it stays
  non-negative when it was. The upper bound is restored by the next \<^verbatim>\<open>guide_right\<close>, which
  leaves the column at most \<open>len(events) - 1\<close> of the selected row (at most 0 when the
  row has no event).
\<close>

theorem guide_column_persists:
  assumes "mode w = Guide" and "guide_rows w \<noteq> []"
    and "0 \<le> g_sel_row w" and "g_sel_row w < int (length (guide_rows w))"
  shows "\<exists>u d r. guide_page_up e w = Inr u \<and> guide_page_down e w = Inr d
           \<and> g_sel_col u = g_sel_col w \<and> g_sel_col d = g_sel_col w
           \<and> (0 \<le> g_sel_col w \<longrightarrow> 0 \<le> g_sel_col u \<and> 0 \<le> g_sel_col d)
           \<and> guide_right w = Inr r \<and> g_sel_row r = g_sel_row w
           \<and> g_sel_col r = min (max 0 (current_event_count w - 1)) (g_sel_col w + 1)"
proof -
  obtain pw os' ft where u: "guide_page_up e w =
           Inr (w\<lparr>g_sel_row := max 0 (g_sel_row w - 1),
                   g_row_offset := (if max 0 (g_sel_row w - 1) < g_row_offset w
                                    then max 0 (g_sel_row w - 1) else g_row_offset w),
                   preview := pw, os_tab := os', pip_footer := ft\<rparr>)"
    using guide_page_up_shape [OF assms(1,2,4)] by blast
  obtain pw2 os2 ft2 where d: "guide_page_down e w =
           Inr (w\<lparr>g_sel_row := min (int (length (guide_rows w)) - 1) (g_sel_row w + 1),
                   g_row_offset :=
                     (if min (int (length (guide_rows w)) - 1) (g_sel_row w + 1)
                           \<ge> g_row_offset w + g_max_visible w
                      then min (int (length (guide_rows w)) - 1) (g_sel_row w + 1) - g_max_visible w + 1
                      else g_row_offset w),
                   preview := pw2, os_tab := os2, pip_footer := ft2\<rparr>)"
    using guide_page_down_shape [OF assms(1,2,3)] by blast
  have ix: "py_index (guide_rows w) (g_sel_row w) = Inr (guide_rows w ! nat (g_sel_row w))"
    using assms(3,4) by (rule py_index_in_range)
  have r: "guide_right w =
             Inr (w\<lparr>g_sel_col := min (max 0 (current_event_count w - 1)) (g_sel_col w + 1)\<rparr>)"
    using assms(1,2) ix by (simp add: guide_right_def current_event_count_def)
  show ?thesis unfolding u d r by simp
qed

theorem guide_column_persists_witness:
  "\<exists>w1 u d r. enter_guide_mode ex_env ex_window = Inr w1
      \<and> mode w1 = Guide \<and> guide_rows w1 \<noteq> []
      \<and> 0 \<le> g_sel_row w1 \<and> g_sel_row w1 < int (length (guide_rows w1))
      \<and> guide_page_up ex_env w1 = Inr u \<and> guide_page_down ex_env w1 = Inr d
      \<and> g_sel_col u = g_sel_col w1 \<and> g_sel_col d = g_sel_col w1
      \<and> 0 \<le> g_sel_col u \<and> 0 \<le> g_sel_col d
      \<and> guide_right w1 = Inr r \<and> g_sel_row r = g_sel_row w1
      \<and> g_sel_col r = min (max 0 (current_event_count w1 - 1)) (g_sel_col w1 + 1)"
proof -
  have ne: "load_guide_rows ex_env \<noteq> []" using ex_load_guide_rows by auto
  obtain pw os' ft where en: "enter_guide_mode ex_env ex_window =
           Inr (ex_window\<lparr>guide_rows := load_guide_rows ex_env, g_sel_row := 0, g_sel_col := 0,
                   g_row_offset := 0, mode := Guide,
                   preview := pw, os_tab := os', pip_footer := ft\<rparr>)"
    using enter_guide_mode_shape [OF ne] by blast
  let ?w1 = "ex_window\<lparr>guide_rows := load_guide_rows ex_env, g_sel_row := 0, g_sel_col := 0,
                   g_row_offset := 0, mode := Guide,
                   preview := pw, os_tab := os', pip_footer := ft\<rparr>"
  have h: "mode ?w1 = Guide" "guide_rows ?w1 \<noteq> []" "0 \<le> g_sel_row ?w1"
    "g_sel_row ?w1 < int (length (guide_rows ?w1))" "0 \<le> g_sel_col ?w1"
    using ne by simp_all
  from guide_column_persists [OF h(1-4), of ex_env] en h show ?thesis by blast
qed

section \<open>The schedule resolver\<close>

lemma fetchone_in_set: "fetchone xs = Some x \<Longrightarrow> x \<in> set xs"
  by (cases xs) (simp_all add: fetchone_def)

lemma fetchone_take1_in_set: "fetchone (take 1 xs) = Some x \<Longrightarrow> x \<in> set xs"
  by (cases xs) (simp_all add: fetchone_def)

lemma event_of_row_times:
  "ev_start (event_of_row ht hp r) = start_utc r"
  "ev_end (event_of_row ht hp r) = (if end_utc r \<le> start_utc r then start_utc r + 60 else end_utc r)"
  by (simp_all add: event_of_row_def Let_def)

lemma event_of_row_end_after_start: "ev_start (event_of_row ht hp r) < ev_end (event_of_row ht hp r)"
  by (simp add: event_of_row_times)

lemma ch_events_channel_of:
  "ch_events (channel_of t now cid) =
     (if ev_rows t cid now = [] then [placeholder now]
      else map (event_of_row (has_title t) (has_path t)) (ev_rows t cid now))"
  by (simp add: channel_of_def placeholder_def table_has_column_def table_columns_def Let_def)

lemma ch_id_channel_of: "ch_id (channel_of t now cid) = cid"
  by (simp add: channel_of_def Let_def)

lemma channel_of_end_after_start:
  "ev \<in> set (ch_events (channel_of t now cid)) \<Longrightarrow> ev_start ev < ev_end ev"
  by (auto simp: ch_events_channel_of placeholder_def event_of_row_end_after_start split: if_splits)

lemma load_channels_and_events_Inr:
  assumes "load_channels_and_events db now = Inr cs"
  shows "cs = [] \<and> \<not> db_exists db
       \<or> (\<exists>t. db_exists db \<and> connect_ok db \<and> schedule_events db = Some t
              \<and> cs = map (channel_of t now) (chans t))"
  using assms
  by (auto simp: load_channels_and_events_def connect_def split: if_splits option.splits)

text \<open>
  C3, as stated, fails for the overlay: in the example schedule the row of channel 10
  that starts and ends at 6000 is returned by \<^verbatim>\<open>schedule_now_next\<close> as the next row with
  its end time still equal to its start time.
\<close>

theorem overlay_next_row_uncorrected_counterexample:
  "schedule_now_next (Some ex_table) ''10'' (Some 500) 0
     = Inr (Some (ex_row ''10'' 0 5000 ''Sport''), Some (ex_row ''10'' 6000 6000 ''Void''))
   \<and> end_utc (ex_row ''10'' 6000 6000 ''Void'') = start_utc (ex_row ''10'' 6000 6000 ''Void'')"
  by code_simp

text \<open>
  C3, amended. Every event of the guide snapshot ends after it starts: a row with
  \<open>end_utc \<le> start_utc\<close> is exposed with end \<open>start_utc + 60\<close>, any other row with its own
  end. The now row returned by \<^verbatim>\<open>schedule_now_next\<close> ends after it starts, because the
  query selects it by \<open>start_utc \<le> now < end_utc\<close>. The next row is returned as stored.
\<close>

theorem exposed_events_end_after_start:
  "(load_channels_and_events db now = Inr cs \<longrightarrow>
      (\<forall>c \<in> set cs. \<forall>ev \<in> set (ch_events c). ev_start ev < ev_end ev))
   \<and> ev_start (event_of_row ht hp r) = start_utc r
   \<and> ev_end (event_of_row ht hp r) = (if end_utc r \<le> start_utc r then start_utc r + 60 else end_utc r)
   \<and> (schedule_now_next conn cid n clk = Inr (Some nr, nx) \<longrightarrow> start_utc nr < end_utc nr)
   \<and> (schedule_now_next conn cid n clk = Inr (nw, Some xr) \<longrightarrow>
        (\<exists>t. conn = Some t \<and> xr \<in> set (rows t)))"
proof -
  have a: "\<forall>c \<in> set cs. \<forall>ev \<in> set (ch_events c). ev_start ev < ev_end ev"
    if "load_channels_and_events db now = Inr cs"
    using load_channels_and_events_Inr [OF that] channel_of_end_after_start by auto
  have b: "start_utc nr < end_utc nr" if h: "schedule_now_next conn cid n clk = Inr (Some nr, nx)"
  proof -
    obtain t where t: "conn = Some t" using h by (cases conn) (simp_all add: schedule_now_next_def)
    let ?now = "case n of None \<Rightarrow> clk | Some m \<Rightarrow> m"
    have "fetchone (take 1 (order_by_desc start_utc
            (filter (\<lambda>r. channel_id r = cid \<and> start_utc r \<le> ?now \<and> end_utc r > ?now) (rows t))))
          = Some nr"
      using h t by (simp add: schedule_now_next_def Let_def)
    then have "nr \<in> set (filter (\<lambda>r. channel_id r = cid \<and> start_utc r \<le> ?now \<and> end_utc r > ?now) (rows t))"
      using fetchone_take1_in_set by (fastforce simp: order_by_desc_def)
    then show ?thesis by auto
  qed
  have c: "\<exists>t. conn = Some t \<and> xr \<in> set (rows t)"
    if h: "schedule_now_next conn cid n clk = Inr (nw, Some xr)"
  proof -
    obtain t where t: "conn = Some t" using h by (cases conn) (simp_all add: schedule_now_next_def)
    let ?now = "case n of None \<Rightarrow> clk | Some m \<Rightarrow> m"
    have "fetchone (take 1 (order_by_asc start_utc
            (filter (\<lambda>r. channel_id r = cid \<and> start_utc r > ?now) (rows t)))) = Some xr"
      using h t by (simp add: schedule_now_next_def Let_def)
    then have "xr \<in> set (filter (\<lambda>r. channel_id r = cid \<and> start_utc r > ?now) (rows t))"
      using fetchone_take1_in_set by (fastforce simp: order_by_asc_def)
    then show ?thesis using t by auto
  qed
  show ?thesis using a b c event_of_row_times by blast
qed

lemma ex_load_is_snapshot: "load_channels_and_events ex_db 500 = Inr (load_guide_rows ex_env)"
  by (simp add: load_guide_rows_def ex_env_def ex_load)

lemma ex_now_next:
  "schedule_now_next (Some ex_table) ''10'' (Some 500) 0
     = Inr (Some (ex_row ''10'' 0 5000 ''Sport''), Some (ex_row ''10'' 6000 6000 ''Void''))"
  by code_simp

lemma ex_snapshot_second:
  "load_guide_rows ex_env ! 1 \<in> set (load_guide_rows ex_env)"
  "ch_events (load_guide_rows ex_env ! 1) ! 1 \<in> set (ch_events (load_guide_rows ex_env ! 1))"
  "ch_id (load_guide_rows ex_env ! 1) = ''10''"
  "ev_start (ch_events (load_guide_rows ex_env ! 1) ! 1) = 6000"
  by (simp_all add: load_guide_rows_def ex_env_def ex_load)

theorem exposed_events_end_after_start_witness:
  "load_channels_and_events ex_db 500 = Inr (load_guide_rows ex_env)
   \<and> load_guide_rows ex_env ! 1 \<in> set (load_guide_rows ex_env)
   \<and> ch_events (load_guide_rows ex_env ! 1) ! 1 \<in> set (ch_events (load_guide_rows ex_env ! 1))
   \<and> ev_start (ch_events (load_guide_rows ex_env ! 1) ! 1) = 6000
   \<and> ev_start (ch_events (load_guide_rows ex_env ! 1) ! 1)
       < ev_end (ch_events (load_guide_rows ex_env ! 1) ! 1)
   \<and> ev_end (event_of_row True True (ex_row ''10'' 6000 6000 ''Void'')) = 6060
   \<and> schedule_now_next (Some ex_table) ''10'' (Some 500) 0
       = Inr (Some (ex_row ''10'' 0 5000 ''Sport''), Some (ex_row ''10'' 6000 6000 ''Void''))
   \<and> start_utc (ex_row ''10'' 0 5000 ''Sport'') < end_utc (ex_row ''10'' 0 5000 ''Sport'')
   \<and> ex_row ''10'' 6000 6000 ''Void'' \<in> set (rows ex_table)"
proof -
  note t = exposed_events_end_after_start [where db = ex_db and now = 500
      and cs = "load_guide_rows ex_env" and conn = "Some ex_table" and cid = "''10''"
      and n = "Some 500" and clk = 0 and nr = "ex_row ''10'' 0 5000 ''Sport''"
      and nx = "Some (ex_row ''10'' 6000 6000 ''Void'')"
      and nw = "Some (ex_row ''10'' 0 5000 ''Sport'')" and xr = "ex_row ''10'' 6000 6000 ''Void''"
      and ht = True and hp = True and r = "ex_row ''10'' 6000 6000 ''Void''"]
  have e: "end_utc (ex_row ''10'' 6000 6000 ''Void'') = 6000"
          "start_utc (ex_row ''10'' 6000 6000 ''Void'') = 6000"
    by (simp_all add: ex_row_def)
  have a: "ev_start (ch_events (load_guide_rows ex_env ! 1) ! 1)
       < ev_end (ch_events (load_guide_rows ex_env ! 1) ! 1)"
    using t ex_load_is_snapshot ex_snapshot_second(1,2) by blast
  from t ex_load_is_snapshot ex_now_next e a ex_snapshot_second show ?thesis by auto
qed

section \<open>Order and size of the guide snapshot\<close>

lemma sorted_take_drop_le:
  assumes "sorted (map k xs)" and "x \<in> set (take n xs)" and "y \<in> set (drop n xs)"
  shows "k x \<le> k y"
proof -
  have "sorted (map k (take n xs) @ map k (drop n xs))"
    using assms(1) by (simp flip: map_append)
  then show ?thesis using assms(2,3) by (auto simp: sorted_append)
qed

lemma ev_rows_props:
  "sorted (map start_utc (ev_rows t cid now))"
  "length (ev_rows t cid now) \<le> 6"
  "set (ev_rows t cid now) \<subseteq> {r \<in> set (rows t). channel_id r = cid \<and> now < end_utc r}"
proof -
  let ?q = "order_by_asc start_utc (filter (\<lambda>r. channel_id r = cid \<and> end_utc r > now) (rows t))"
  have s: "sorted (map start_utc ?q)" by (simp add: order_by_asc_def)
  show "sorted (map start_utc (ev_rows t cid now))"
    using s by (simp add: ev_rows_def sorted_wrt_take flip: take_map)
  show "length (ev_rows t cid now) \<le> 6" by (simp add: ev_rows_def)
  have "set (take 6 ?q) \<subseteq> set ?q" by (rule set_take_subset)
  then show "set (ev_rows t cid now) \<subseteq> {r \<in> set (rows t). channel_id r = cid \<and> now < end_utc r}"
    by (auto simp: ev_rows_def order_by_asc_def)
qed

lemma ev_rows_length:
  "length (ev_rows t cid now)
     = min (length (filter (\<lambda>r. channel_id r = cid \<and> now < end_utc r) (rows t))) 6"
  by (simp add: ev_rows_def order_by_asc_def)

lemma ev_rows_earliest:
  assumes "r \<in> set (rows t)" and "channel_id r = cid" and "now < end_utc r"
    and "r \<notin> set (ev_rows t cid now)" and "q \<in> set (ev_rows t cid now)"
  shows "start_utc q \<le> start_utc r"
proof -
  let ?q = "order_by_asc start_utc (filter (\<lambda>r. channel_id r = cid \<and> end_utc r > now) (rows t))"
  have s: "sorted (map start_utc ?q)" by (simp add: order_by_asc_def)
  have "r \<in> set ?q" using assms(1-3) by (simp add: order_by_asc_def)
  then have "r \<in> set (take 6 ?q) \<union> set (drop 6 ?q)"
    by (metis append_take_drop_id set_append)
  then have "r \<in> set (drop 6 ?q)" using assms(4) by (simp add: ev_rows_def)
  moreover have "q \<in> set (take 6 ?q)" using assms(5) by (simp add: ev_rows_def)
  ultimately show ?thesis using sorted_take_drop_le [OF s] by blast
qed

lemma chans_sorted: "sorted (map sql_cast_integer (chans t))"
  by (simp add: chans_def order_by_asc_def)

lemma channel_of_events_props:
  "sorted (map ev_start (ch_events (channel_of t now cid)))"
  "1 \<le> length (ch_events (channel_of t now cid))"
  "length (ch_events (channel_of t now cid)) \<le> 6"
proof -
  have m: "map (ev_start \<circ> event_of_row (has_title t) (has_path t)) rs = map start_utc rs" for rs
    by (simp add: event_of_row_times comp_def)
  show "sorted (map ev_start (ch_events (channel_of t now cid)))"
    using ev_rows_props(1) [of t cid now] by (simp add: ch_events_channel_of m)
  show "1 \<le> length (ch_events (channel_of t now cid))"
    by (cases "ev_rows t cid now") (simp_all add: ch_events_channel_of)
  show "length (ch_events (channel_of t now cid)) \<le> 6"
    using ev_rows_props(2) [of t cid now] by (simp add: ch_events_channel_of)
qed

text \<open>
  C4. The claim, like the comment \<^verbatim>\<open># current + next 5 events\<close> that stands above the event
  query, says that a channel lists its current event and at most five upcoming ones.
  The query selects by \<^verbatim>\<open>end_utc > now\<close> alone. At the instant 0 the channel of the example
  store whose seven programmes all start later is listed with six events: all six are
  upcoming and none is current.
\<close>

theorem snapshot_six_upcoming_no_current:
  "load_channels_and_events ex_db_future 0 = Inr
     [\<lparr>ch_id = ''7'', ch_name = ''Channel 7'',
        ch_events = [\<lparr>ev_title = ''A'', ev_start = 100, ev_end = 200\<rparr>,
                     \<lparr>ev_title = ''B'', ev_start = 200, ev_end = 300\<rparr>,
                     \<lparr>ev_title = ''C'', ev_start = 300, ev_end = 400\<rparr>,
                     \<lparr>ev_title = ''D'', ev_start = 400, ev_end = 500\<rparr>,
                     \<lparr>ev_title = ''E'', ev_start = 500, ev_end = 600\<rparr>,
                     \<lparr>ev_title = ''F'', ev_start = 600, ev_end = 700\<rparr>]\<rparr>]
   \<and> map_sum id (map (upcoming_count 0 \<circ> ch_events)) (load_channels_and_events ex_db_future 0)
       = Inr [6]
   \<and> map_sum id (map (current_event 0 \<circ> ch_events)) (load_channels_and_events ex_db_future 0)
       = Inr [None]"
  by code_simp

text \<open>
  What holds of every snapshot: the channels come in ascending order of the integer their
  identifier casts to, and each channel's events in ascending start order. A channel has
  between one and six events: as many of its rows that end after \<open>now\<close> as there are, up
  to six, taken in start order (every such row left out starts no earlier than each row
  listed), or the single placeholder when there is no such row.
\<close>

lemma snapshot_order_and_cap:
  assumes "load_channels_and_events db now = Inr cs"
  shows "sorted (map (sql_cast_integer \<circ> ch_id) cs)
     \<and> (\<forall>c \<in> set cs. sorted (map ev_start (ch_events c))
                      \<and> 1 \<le> length (ch_events c) \<and> length (ch_events c) \<le> 6)
     \<and> (\<forall>t. schedule_events db = Some t \<longrightarrow>
          (\<forall>c \<in> set cs.
             ch_events c =
               (if ev_rows t (ch_id c) now = [] then [placeholder now]
                else map (event_of_row (has_title t) (has_path t)) (ev_rows t (ch_id c) now))
             \<and> set (ev_rows t (ch_id c) now)
                 \<subseteq> {r \<in> set (rows t). channel_id r = ch_id c \<and> now < end_utc r}
             \<and> length (ev_rows t (ch_id c) now)
                 = min (length (filter (\<lambda>r. channel_id r = ch_id c \<and> now < end_utc r) (rows t))) 6
             \<and> (\<forall>r \<in> set (rows t). \<forall>q \<in> set (ev_rows t (ch_id c) now).
                   channel_id r = ch_id c \<and> now < end_utc r \<and> r \<notin> set (ev_rows t (ch_id c) now)
                   \<longrightarrow> start_utc q \<le> start_utc r)))"
proof -
  from load_channels_and_events_Inr [OF assms]
  consider "cs = []"
    | t where "schedule_events db = Some t" "cs = map (channel_of t now) (chans t)"
    by blast
  then show ?thesis
  proof cases
    case 1
    then show ?thesis by simp
  next
    case 2
    have "map (sql_cast_integer \<circ> ch_id) cs = map sql_cast_integer (chans t)"
      using 2(2) by (simp add: ch_id_channel_of comp_def)
    then have a: "sorted (map (sql_cast_integer \<circ> ch_id) cs)"
      using chans_sorted by simp
    have b: "\<forall>c \<in> set cs. sorted (map ev_start (ch_events c))
                      \<and> 1 \<le> length (ch_events c) \<and> length (ch_events c) \<le> 6"
      using 2(2) channel_of_events_props by auto
    have c: "\<forall>c \<in> set cs.
             ch_events c =
               (if ev_rows t (ch_id c) now = [] then [placeholder now]
                else map (event_of_row (has_title t) (has_path t)) (ev_rows t (ch_id c) now))"
      using 2(2) by (auto simp: ch_events_channel_of ch_id_channel_of)
    have d: "set (ev_rows t i now) \<subseteq> {r \<in> set (rows t). channel_id r = i \<and> now < end_utc r}" for i
      by (rule ev_rows_props(3))
    have e: "\<forall>r \<in> set (rows t). \<forall>q \<in> set (ev_rows t i now).
                   channel_id r = i \<and> now < end_utc r \<and> r \<notin> set (ev_rows t i now)
                   \<longrightarrow> start_utc q \<le> start_utc r" for i
      using ev_rows_earliest by blast
    have f: "\<forall>t'. schedule_events db = Some t' \<longrightarrow>
          (\<forall>c \<in> set cs.
             ch_events c =
               (if ev_rows t' (ch_id c) now = [] then [placeholder now]
                else map (event_of_row (has_title t') (has_path t')) (ev_rows t' (ch_id c) now))
             \<and> set (ev_rows t' (ch_id c) now)
                 \<subseteq> {r \<in> set (rows t'). channel_id r = ch_id c \<and> now < end_utc r}
             \<and> length (ev_rows t' (ch_id c) now)
                 = min (length (filter (\<lambda>r. channel_id r = ch_id c \<and> now < end_utc r) (rows t'))) 6
             \<and> (\<forall>r \<in> set (rows t'). \<forall>q \<in> set (ev_rows t' (ch_id c) now).
                   channel_id r = ch_id c \<and> now < end_utc r \<and> r \<notin> set (ev_rows t' (ch_id c) now)
                   \<longrightarrow> start_utc q \<le> start_utc r))"
    proof (intro allI impI ballI)
      fix t' c
      assume "schedule_events db = Some t'" and cin: "c \<in> set cs"
      then have t': "t' = t" using 2(1) by simp
      show "ch_events c =
               (if ev_rows t' (ch_id c) now = [] then [placeholder now]
                else map (event_of_row (has_title t') (has_path t')) (ev_rows t' (ch_id c) now))
             \<and> set (ev_rows t' (ch_id c) now)
                 \<subseteq> {r \<in> set (rows t'). channel_id r = ch_id c \<and> now < end_utc r}
             \<and> length (ev_rows t' (ch_id c) now)
                 = min (length (filter (\<lambda>r. channel_id r = ch_id c \<and> now < end_utc r) (rows t'))) 6
             \<and> (\<forall>r \<in> set (rows t'). \<forall>q \<in> set (ev_rows t' (ch_id c) now).
                   channel_id r = ch_id c \<and> now < end_utc r \<and> r \<notin> set (ev_rows t' (ch_id c) now)
                   \<longrightarrow> start_utc q \<le> start_utc r)"
        unfolding t' using c cin d [of "ch_id c"] e [of "ch_id c"] ev_rows_length [of t "ch_id c" now]
        by (intro conjI) blast+
    qed
    show ?thesis using a b f by (intro conjI) blast+
  qed
qed

lemma snapshot_order_and_cap_example:
  "load_channels_and_events ex_db 500 = Inr (load_guide_rows ex_env)
   \<and> schedule_events ex_db = Some ex_table
   \<and> load_guide_rows ex_env ! 1 \<in> set (load_guide_rows ex_env)
   \<and> ch_id (load_guide_rows ex_env ! 1) = ''10''
   \<and> sorted (map (sql_cast_integer \<circ> ch_id) (load_guide_rows ex_env))
   \<and> sorted (map ev_start (ch_events (load_guide_rows ex_env ! 1)))
   \<and> 1 \<le> length (ch_events (load_guide_rows ex_env ! 1))
   \<and> length (ch_events (load_guide_rows ex_env ! 1)) \<le> 6
   \<and> set (ev_rows ex_table ''10'' 500)
       \<subseteq> {r \<in> set (rows ex_table). channel_id r = ''10'' \<and> 500 < end_utc r}"
proof -
  have h: "schedule_events ex_db = Some ex_table" by (simp add: ex_db_def)
  note t = snapshot_order_and_cap [OF ex_load_is_snapshot]
  have a: "sorted (map (sql_cast_integer \<circ> ch_id) (load_guide_rows ex_env))"
    using t by blast
  have b: "sorted (map ev_start (ch_events (load_guide_rows ex_env ! 1)))
     \<and> 1 \<le> length (ch_events (load_guide_rows ex_env ! 1))
     \<and> length (ch_events (load_guide_rows ex_env ! 1)) \<le> 6"
    using t ex_snapshot_second(1) by blast
  have "set (ev_rows ex_table (ch_id (load_guide_rows ex_env ! 1)) 500)
       \<subseteq> {r \<in> set (rows ex_table). channel_id r = ch_id (load_guide_rows ex_env ! 1) \<and> 500 < end_utc r}"
    using t h ex_snapshot_second(1) by blast
  then have c: "set (ev_rows ex_table ''10'' 500)
       \<subseteq> {r \<in> set (rows ex_table). channel_id r = ''10'' \<and> 500 < end_utc r}"
    unfolding ex_snapshot_second(3) .
  show ?thesis using a b c h ex_load_is_snapshot ex_snapshot_second(1,3) by (intro conjI) blast+
qed

section \<open>Store failures\<close>

text \<open>
  C2, as stated, fails for \<^verbatim>\<open>load_channels_and_events\<close>: when the store file exists but
  cannot be opened, the exception leaves the function.
\<close>

theorem load_propagates_failure_counterexample:
  "load_channels_and_events ex_db_locked 0 = Inl OperationalError"
  by code_simp

text \<open>
  C2, amended. \<^verbatim>\<open>resolve_now_path_and_offset\<close> never raises: a failure inside it is answered
  by \<^verbatim>\<open>None\<close>. \<^verbatim>\<open>load_channels_and_events\<close> answers an absent store file by the empty list,
  but raises when the file exists and cannot be opened or has no schedule table; that
  exception is caught by its caller \<^verbatim>\<open>_enter_guide_mode\<close>, which continues with the empty
  list and does not raise.
\<close>

theorem store_failures_contained:
  "(\<exists>r. resolve_now_path_and_offset db now cid = Inr r)
   \<and> (resolve_body db now cid = Inl err \<longrightarrow> resolve_now_path_and_offset db now cid = Inr None)
   \<and> (\<not> db_exists db \<longrightarrow> load_channels_and_events db now = Inr [])
   \<and> ((\<exists>err'. load_channels_and_events db now = Inl err')
        \<longleftrightarrow> db_exists db \<and> (\<not> connect_ok db \<or> schedule_events db = None))
   \<and> (load_channels_and_events (sched e) (clock e) = Inl err \<longrightarrow>
        load_guide_rows e = []
        \<and> (\<exists>w'. enter_guide_mode e w = Inr w' \<and> guide_rows w' = [] \<and> mode w' = Guide))"
proof -
  have a: "\<exists>r. resolve_now_path_and_offset db now cid = Inr r" by (rule resolve_never_raises)
  have b: "resolve_body db now cid = Inl err \<longrightarrow> resolve_now_path_and_offset db now cid = Inr None"
    by (simp add: resolve_now_path_and_offset_def)
  have c: "\<not> db_exists db \<longrightarrow> load_channels_and_events db now = Inr []"
    by (simp add: load_channels_and_events_def)
  have d: "(\<exists>err'. load_channels_and_events db now = Inl err')
        \<longleftrightarrow> db_exists db \<and> (\<not> connect_ok db \<or> schedule_events db = None)"
    by (auto simp: load_channels_and_events_def connect_def split: option.splits)
  have f: "load_guide_rows e = []
        \<and> (\<exists>w'. enter_guide_mode e w = Inr w' \<and> guide_rows w' = [] \<and> mode w' = Guide)"
    if "load_channels_and_events (sched e) (clock e) = Inl err"
  proof -
    have g: "load_guide_rows e = []" using that by (simp add: load_guide_rows_def)
    then show ?thesis using enter_guide_mode_empty [OF g, of w] by simp
  qed
  show ?thesis using a b c d f by blast
qed

theorem store_failures_contained_witness:
  "resolve_body ex_db_locked 500 ''2'' = Inl OperationalError
   \<and> resolve_now_path_and_offset ex_db_locked 500 ''2'' = Inr None
   \<and> db_exists ex_db_locked \<and> \<not> connect_ok ex_db_locked
   \<and> load_channels_and_events (sched (ex_env\<lparr>sched := ex_db_locked\<rparr>))
        (clock (ex_env\<lparr>sched := ex_db_locked\<rparr>)) = Inl OperationalError
   \<and> load_guide_rows (ex_env\<lparr>sched := ex_db_locked\<rparr>) = []
   \<and> (\<exists>w'. enter_guide_mode (ex_env\<lparr>sched := ex_db_locked\<rparr>) ex_window = Inr w'
          \<and> guide_rows w' = [] \<and> mode w' = Guide)
   \<and> \<not> db_exists (ex_db_locked\<lparr>db_exists := False\<rparr>)
   \<and> load_channels_and_events (ex_db_locked\<lparr>db_exists := False\<rparr>) 500 = Inr []"
proof -
  have h1: "resolve_body ex_db_locked 500 ''2'' = Inl OperationalError"
    by (simp add: resolve_body_def connect_def ex_db_locked_def)
  have h2: "load_channels_and_events (sched (ex_env\<lparr>sched := ex_db_locked\<rparr>))
        (clock (ex_env\<lparr>sched := ex_db_locked\<rparr>)) = Inl OperationalError"
    by (simp add: load_channels_and_events_def connect_def ex_db_locked_def)
  have h3: "db_exists ex_db_locked" "\<not> connect_ok ex_db_locked"
    "\<not> db_exists (ex_db_locked\<lparr>db_exists := False\<rparr>)"
    by (simp_all add: ex_db_locked_def)
  from store_failures_contained [where db = ex_db_locked and now = 500 and cid = "''2''"
      and err = OperationalError and e = "ex_env\<lparr>sched := ex_db_locked\<rparr>" and w = ex_window]
    store_failures_contained [where db = "ex_db_locked\<lparr>db_exists := False\<rparr>" and now = 500]
    h1 h2 h3
  show ?thesis by blast
qed

section \<open>Helper process ownership\<close>

lemma live_set_live: "live (set_live l os) = l"
  by (simp add: set_live_def)

lemma live_exited: "live (exited p os) = filter (\<lambda>q. fst q \<noteq> p) (live os)"
  by (simp add: exited_def live_set_live)

lemma stop_proc_exited:
  "stop_proc x pr os = (case pr of None \<Rightarrow> os | Some p \<Rightarrow> exited p os)"
proof (cases pr)
  case None
  then show ?thesis by (simp add: stop_proc_def)
next
  case (Some p)
  show ?thesis
  proof (cases "running os p")
    case True
    then show ?thesis using Some
      by (simp add: stop_proc_def terminate_wait_def kill_def)
  next
    case False
    then have "filter (\<lambda>q. fst q \<noteq> p) (live os) = live os"
      by (auto simp: running_def filter_id_conv)
    then show ?thesis using Some False by (simp add: stop_proc_def exited_def set_live_def)
  qed
qed

lemma owned_ok_iff:
  "owned_ok pr ps \<longleftrightarrow> ps = [] \<or> (\<exists>q. ps = [q] \<and> pr = Some (fst q))"
  by (cases "(pr, ps)" rule: owned_ok.cases) auto

lemma owned_ok_length: "owned_ok pr ps \<Longrightarrow> length ps \<le> 1"
  by (auto simp: owned_ok_iff)

lemma owned_ok_filter: "owned_ok pr ps \<Longrightarrow> owned_ok pr (filter P ps)"
  by (auto simp: owned_ok_iff)

lemma owned_ok_filter_own: "owned_ok (Some p) ps \<Longrightarrow> filter (\<lambda>q. fst q \<noteq> p) ps = []"
  by (auto simp: owned_ok_iff)

lemma owned_ok_None: "owned_ok None ps \<longleftrightarrow> ps = []"
  by (auto simp: owned_ok_iff)

lemma procs_exited:
  "preview_procs (exited p os) = filter (\<lambda>q. fst q \<noteq> p) (preview_procs os)"
  "audio_procs (exited p os) = filter (\<lambda>q. fst q \<noteq> p) (audio_procs os)"
  by (auto simp: preview_procs_def audio_procs_def live_exited intro: filter_cong)

lemma procs_Popen_preview:
  "Popen ok (PreviewArgs f off) os = (r, os') \<Longrightarrow>
     preview_procs os' = preview_procs os @ (case r of None \<Rightarrow> [] | Some p \<Rightarrow> [(p, PreviewArgs f off)])
     \<and> audio_procs os' = audio_procs os"
  by (auto simp: Popen_def preview_procs_def audio_procs_def live_set_live split: if_splits)

lemma procs_Popen_audio:
  "Popen ok (AudioArgs f v) os = (r, os') \<Longrightarrow>
     audio_procs os' = audio_procs os @ (case r of None \<Rightarrow> [] | Some p \<Rightarrow> [(p, AudioArgs f v)])
     \<and> preview_procs os' = preview_procs os"
  by (auto simp: Popen_def preview_procs_def audio_procs_def live_set_live split: if_splits)

lemma stop_preview_props:
  assumes "stop_preview e (pw, os) = (pw', os')"
  shows "proc pw' = None"
    and "owned_ok (proc pw) (preview_procs os) \<Longrightarrow> preview_procs os' = []"
    and "owned_ok a (audio_procs os) \<Longrightarrow> owned_ok a (audio_procs os')"
    and "proc pw = Some p \<Longrightarrow> \<not> running os' p"
proof -
  have eq: "pw' = pw\<lparr>proc := None\<rparr>"
    "os' = (case proc pw of None \<Rightarrow> os | Some p \<Rightarrow> exited p os)"
    using assms by (simp_all add: stop_preview_def stop_proc_exited)
  show "proc pw' = None" using eq by simp
  show "preview_procs os' = []" if "owned_ok (proc pw) (preview_procs os)"
    using that eq(2) by (cases "proc pw") (simp_all add: owned_ok_None procs_exited owned_ok_filter_own)
  show "owned_ok a (audio_procs os')" if "owned_ok a (audio_procs os)"
    using that eq(2) by (cases "proc pw") (simp_all add: procs_exited owned_ok_filter)
  show "\<not> running os' p" if "proc pw = Some p"
    using that eq(2) by (auto simp: running_def live_exited)
qed

lemma audio_stop_props:
  assumes "audio_stop e (ma, os) = (ma', os')"
  shows "audio_proc ma' = None"
    and "owned_ok (audio_proc ma) (audio_procs os) \<Longrightarrow> audio_procs os' = []"
    and "owned_ok a (preview_procs os) \<Longrightarrow> owned_ok a (preview_procs os')"
    and "audio_proc ma = Some p \<Longrightarrow> \<not> running os' p"
    and "running os' q \<Longrightarrow> running os q"
    and "audio_path ma' = audio_path ma" and "volume ma' = volume ma"
proof -
  have eq: "ma' = ma\<lparr>audio_proc := None\<rparr>"
    "os' = (case audio_proc ma of None \<Rightarrow> os | Some p \<Rightarrow> exited p os)"
    using assms by (simp_all add: audio_stop_def stop_proc_exited)
  show "audio_proc ma' = None" "audio_path ma' = audio_path ma" "volume ma' = volume ma"
    using eq by simp_all
  show "audio_procs os' = []" if "owned_ok (audio_proc ma) (audio_procs os)"
    using that eq(2) by (cases "audio_proc ma") (simp_all add: owned_ok_None procs_exited owned_ok_filter_own)
  show "owned_ok a (preview_procs os')" if "owned_ok a (preview_procs os)"
    using that eq(2) by (cases "audio_proc ma") (simp_all add: procs_exited owned_ok_filter)
  show "\<not> running os' p" if "audio_proc ma = Some p"
    using that eq(2) by (auto simp: running_def live_exited)
  show "running os q" if "running os' q"
    using that eq(2) by (cases "audio_proc ma") (auto simp: running_def live_exited)
qed

lemma start_preview_props:
  assumes "start_preview e f off (pw, os) = (pw', os')"
    and "owned_ok (proc pw) (preview_procs os)"
  shows "owned_ok (proc pw') (preview_procs os')"
    and "spawn_ok e \<Longrightarrow> \<exists>p. proc pw' = Some p \<and> preview_procs os' = [(p, PreviewArgs f (max 0 off))]"
    and "\<not> spawn_ok e \<Longrightarrow> proc pw' = None \<and> preview_procs os' = []"
    and "owned_ok a (audio_procs os) \<Longrightarrow> owned_ok a (audio_procs os')"
proof -
  obtain pw1 os1 where st: "stop_preview e (pw, os) = (pw1, os1)"
    by (cases "stop_preview e (pw, os)")
  obtain r os2 where po: "Popen (spawn_ok e) (PreviewArgs f (max 0 off)) os1 = (r, os2)"
    by (cases "Popen (spawn_ok e) (PreviewArgs f (max 0 off)) os1")
  have r: "spawn_ok e \<Longrightarrow> \<exists>p. r = Some p" "\<not> spawn_ok e \<Longrightarrow> r = None"
    using po by (auto simp: Popen_def)
  have eq: "pw' = pw1\<lparr>proc := r\<rparr>" "os' = os2"
    using assms(1) st po by (cases r; simp add: start_preview_def)+
  have e1: "preview_procs os1 = []" using stop_preview_props(2) [OF st assms(2)] .
  have pp: "preview_procs os2 = (case r of None \<Rightarrow> [] | Some p \<Rightarrow> [(p, PreviewArgs f (max 0 off))])"
    "audio_procs os2 = audio_procs os1"
    using procs_Popen_preview [OF po] e1 by simp_all
  show "owned_ok (proc pw') (preview_procs os')"
    using eq pp by (cases r) simp_all
  show "\<exists>p. proc pw' = Some p \<and> preview_procs os' = [(p, PreviewArgs f (max 0 off))]" if "spawn_ok e"
    using r(1) [OF that] eq pp by auto
  show "proc pw' = None \<and> preview_procs os' = []" if "\<not> spawn_ok e"
    using r(2) [OF that] eq pp by auto
  show "owned_ok a (audio_procs os')" if "owned_ok a (audio_procs os)"
    using stop_preview_props(3) [OF st that] eq pp by simp
qed

lemma audio_start_props:
  assumes "audio_start e (ma, os) = (ma', os')"
    and "owned_ok (audio_proc ma) (audio_procs os)"
  shows "owned_ok (audio_proc ma') (audio_procs os')
       \<and> (owned_ok a (preview_procs os) \<longrightarrow> owned_ok a (preview_procs os'))"
proof (cases "file_exists e (audio_path ma)")
  case False
  then have "ma' = ma" "os' = os" using assms(1) by (simp_all add: audio_start_def)
  then show ?thesis using assms(2) by simp
next
  case True
  obtain ma1 os1 where st: "audio_stop e (ma, os) = (ma1, os1)"
    by (cases "audio_stop e (ma, os)")
  obtain r os2 where po: "Popen (spawn_ok e) (AudioArgs (audio_path ma1) (volume ma1)) os1 = (r, os2)"
    by (cases "Popen (spawn_ok e) (AudioArgs (audio_path ma1) (volume ma1)) os1")
  have eq: "ma' = ma1\<lparr>audio_proc := r\<rparr>" "os' = os2"
    using assms(1) st po True by (cases r; simp add: audio_start_def)+
  have e1: "audio_procs os1 = []" using audio_stop_props(2) [OF st assms(2)] .
  have pp: "audio_procs os2 = (case r of None \<Rightarrow> [] | Some p \<Rightarrow> [(p, AudioArgs (audio_path ma1) (volume ma1))])"
    "preview_procs os2 = preview_procs os1"
    using procs_Popen_audio [OF po] e1 by simp_all
  have a: "owned_ok (audio_proc ma') (audio_procs os')"
    using eq pp by (cases r) simp_all
  have b: "owned_ok a (preview_procs os')" if "owned_ok a (preview_procs os)"
    using audio_stop_props(3) [OF st that] eq pp by simp
  show ?thesis using a b by blast
qed

lemma preview_step_owned:
  assumes "owned_ok (proc pw) (preview_procs os)" and "preview_step x (pw, os) = (pw', os')"
  shows "owned_ok (proc pw') (preview_procs os')"
proof -
  obtain e op where x: "x = (e, op)" by (cases x)
  show ?thesis
  proof (cases op)
    case (Start f off)
    then show ?thesis using assms x start_preview_props(1) by simp
  next
    case Stop
    then have st: "stop_preview e (pw, os) = (pw', os')" using assms(2) x by simp
    show ?thesis
      using stop_preview_props(1) [OF st] stop_preview_props(2) [OF st assms(1)] by simp
  next
    case Died
    then have "pw' = pw" "os' = (case proc pw of None \<Rightarrow> os | Some q \<Rightarrow> exited q os)"
      using assms(2) x by auto
    then show ?thesis
      using assms(1) by (cases "proc pw") (simp_all add: procs_exited owned_ok_filter)
  qed
qed

lemma audio_step_owned:
  assumes "owned_ok (audio_proc ma) (audio_procs os)" and "audio_step x (ma, os) = (ma', os')"
  shows "owned_ok (audio_proc ma') (audio_procs os')"
proof -
  obtain e op where x: "x = (e, op)" by (cases x)
  show ?thesis
  proof (cases op)
    case AStart
    then show ?thesis using assms x audio_start_props by simp
  next
    case AStop
    then have st: "audio_stop e (ma, os) = (ma', os')" using assms(2) x by simp
    show ?thesis
      using audio_stop_props(1) [OF st] audio_stop_props(2) [OF st assms(1)] by simp
  next
    case ADied
    then have "ma' = ma" "os' = (case audio_proc ma of None \<Rightarrow> os | Some q \<Rightarrow> exited q os)"
      using assms(2) x by auto
    then show ?thesis
      using assms(1) by (cases "audio_proc ma") (simp_all add: procs_exited owned_ok_filter)
  qed
qed

lemma history_set_live:
  "history (set_live l os) = history os @ (if l = live os then [] else [l])"
  "next_pid (set_live l os) = next_pid os"
  by (simp_all add: set_live_def)

lemma without_live_iff:
  "without pr (live os) \<noteq> live os \<longleftrightarrow> (\<exists>p. pr = Some p \<and> running os p)"
proof (cases pr)
  case None
  then show ?thesis by (simp add: without_def)
next
  case (Some p)
  have "filter (\<lambda>q. fst q \<noteq> p) (live os) = live os \<longleftrightarrow> \<not> running os p"
    by (auto simp: running_def filter_id_conv)
  then show ?thesis using Some by (simp add: without_def)
qed

lemma stop_proc_set_live: "stop_proc x pr os = set_live (without pr (live os)) os"
  by (cases pr) (simp_all add: stop_proc_exited without_def exited_def set_live_def)

lemma is_audio_eq: "is_audio = (\<lambda>q. \<not> is_preview q)"
  by (simp add: fun_eq_iff is_audio_def)

lemma owned_ok_all_own: "owned_ok (Some p) ps \<Longrightarrow> \<forall>q \<in> set ps. fst q = p"
  by (auto simp: owned_ok_iff)

lemma without_owned:
  "owned_ok pr (preview_procs os) \<Longrightarrow> filter is_preview (without pr (live os)) = []"
  "owned_ok pr (audio_procs os) \<Longrightarrow> filter is_audio (without pr (live os)) = []"
proof -
  show "filter is_preview (without pr (live os)) = []" if h: "owned_ok pr (preview_procs os)"
  proof (cases pr)
    case None
    then show ?thesis using h by (simp add: without_def owned_ok_None preview_procs_def)
  next
    case (Some p)
    then have "\<forall>q \<in> set (preview_procs os). fst q = p" using h owned_ok_all_own by blast
    then show ?thesis using Some
      by (auto simp: without_def preview_procs_def filter_empty_conv)
  qed
  show "filter is_audio (without pr (live os)) = []" if h: "owned_ok pr (audio_procs os)"
  proof (cases pr)
    case None
    then show ?thesis using h by (simp add: without_def owned_ok_None audio_procs_def is_audio_eq)
  next
    case (Some p)
    then have "\<forall>q \<in> set (audio_procs os). fst q = p" using h owned_ok_all_own by blast
    then show ?thesis using Some
      by (auto simp: without_def audio_procs_def is_audio_eq filter_empty_conv)
  qed
qed

lemma start_preview_eq:
  "start_preview e f off (pw, os) =
     (pw\<lparr>proc := (if spawn_ok e then Some (next_pid os) else None)\<rparr>,
      if spawn_ok e
      then (set_live (without (proc pw) (live os) @ [(next_pid os, PreviewArgs f (max 0 off))])
              (set_live (without (proc pw) (live os)) os))\<lparr>next_pid := Suc (next_pid os)\<rparr>
      else set_live (without (proc pw) (live os)) os)"
  by (simp add: start_preview_def stop_preview_def stop_proc_set_live Popen_def
        live_set_live history_set_live)

lemma audio_start_eq:
  "file_exists e (audio_path ma) \<Longrightarrow>
   audio_start e (ma, os) =
     (ma\<lparr>audio_proc := (if spawn_ok e then Some (next_pid os) else None)\<rparr>,
      if spawn_ok e
      then (set_live (without (audio_proc ma) (live os)
                        @ [(next_pid os, AudioArgs (audio_path ma) (volume ma))])
              (set_live (without (audio_proc ma) (live os)) os))\<lparr>next_pid := Suc (next_pid os)\<rparr>
      else set_live (without (audio_proc ma) (live os)) os)"
  by (simp add: audio_start_def audio_stop_def stop_proc_set_live Popen_def
        live_set_live history_set_live)

lemma never_two_set_live:
  "never_two P os \<Longrightarrow> length (filter P l) \<le> 1 \<Longrightarrow> never_two P (set_live l os)"
  by (simp add: never_two_def set_live_def)

lemma never_two_next_pid: "never_two P (os\<lparr>next_pid := n\<rparr>) = never_two P os"
  by (simp add: never_two_def)

lemma length_filter_filter_le:
  "length (filter P (filter Q l)) \<le> length (filter P l)"
  by (induction l) auto

lemma never_two_exited:
  "never_two P os \<Longrightarrow> length (filter P (live os)) \<le> 1 \<Longrightarrow> never_two P (exited p os)"
proof -
  assume a: "never_two P os" and b: "length (filter P (live os)) \<le> 1"
  have "length (filter P (filter (\<lambda>q. fst q \<noteq> p) (live os))) \<le> 1"
    using order_trans [OF length_filter_filter_le b] .
  then show ?thesis unfolding exited_def using a by (intro never_two_set_live)
qed

lemma never_two_stop_proc:
  "never_two P os \<Longrightarrow> length (filter P (live os)) \<le> 1 \<Longrightarrow> never_two P (stop_proc x pr os)"
  by (cases pr) (simp_all add: stop_proc_exited never_two_exited)

lemma preview_step_never_two:
  assumes "owned_ok (proc pw) (preview_procs os)" and "never_two is_preview os"
    and "preview_step x (pw, os) = (pw', os')"
  shows "never_two is_preview os'"
proof -
  obtain e op where x: "x = (e, op)" by (cases x)
  have len: "length (filter is_preview (live os)) \<le> 1"
    using owned_ok_length [OF assms(1)] by (simp add: preview_procs_def)
  let ?A = "without (proc pw) (live os)"
  have A: "filter is_preview ?A = []" using without_owned(1) [OF assms(1)] .
  show ?thesis
  proof (cases op)
    case (Start f off)
    have a: "never_two is_preview (set_live ?A os)"
      using A by (intro never_two_set_live assms(2)) simp
    have b: "never_two is_preview
               (set_live (?A @ [(next_pid os, PreviewArgs f (max 0 off))]) (set_live ?A os))"
      using A by (intro never_two_set_live a) simp
    show ?thesis
      using assms(3) x Start a b by (auto simp: start_preview_eq never_two_next_pid split: if_splits)
  next
    case Stop
    then show ?thesis
      using assms x len by (auto simp: stop_preview_def never_two_stop_proc)
  next
    case Died
    then show ?thesis
      using assms x len by (cases "proc pw") (auto simp: never_two_exited)
  qed
qed

lemma audio_step_never_two:
  assumes "owned_ok (audio_proc ma) (audio_procs os)" and "never_two is_audio os"
    and "audio_step x (ma, os) = (ma', os')"
  shows "never_two is_audio os'"
proof -
  obtain e op where x: "x = (e, op)" by (cases x)
  have len: "length (filter is_audio (live os)) \<le> 1"
    using owned_ok_length [OF assms(1)] by (simp add: audio_procs_def is_audio_eq)
  let ?A = "without (audio_proc ma) (live os)"
  have A: "filter is_audio ?A = []" using without_owned(2) [OF assms(1)] .
  show ?thesis
  proof (cases op)
    case AStart
    show ?thesis
    proof (cases "file_exists e (audio_path ma)")
      case False
      then show ?thesis using assms x AStart by (simp add: audio_start_def)
    next
      case True
      have a: "never_two is_audio (set_live ?A os)"
        using A by (intro never_two_set_live assms(2)) simp
      have b: "never_two is_audio
                 (set_live (?A @ [(next_pid os, AudioArgs (audio_path ma) (volume ma))])
                    (set_live ?A os))"
        using A by (intro never_two_set_live a) (simp add: is_audio_def)
      show ?thesis
        using assms(3) x AStart a b
        by (auto simp: audio_start_eq [OF True] never_two_next_pid split: if_splits)
    qed
  next
    case AStop
    then show ?thesis
      using assms x len by (auto simp: audio_stop_def never_two_stop_proc)
  next
    case ADied
    then show ?thesis
      using assms x len by (cases "audio_proc ma") (auto simp: never_two_exited)
  qed
qed

lemma fold_preview_step_inv:
  "owned_ok (proc (fst st)) (preview_procs (snd st)) \<and> never_two is_preview (snd st) \<Longrightarrow>
   owned_ok (proc (fst (fold preview_step ops st))) (preview_procs (snd (fold preview_step ops st)))
   \<and> never_two is_preview (snd (fold preview_step ops st))"
proof (induction ops arbitrary: st)
  case Nil
  then show ?case by simp
next
  case (Cons x xs)
  obtain pw os where st: "st = (pw, os)" by (cases st)
  obtain pw' os' where s1: "preview_step x (pw, os) = (pw', os')" by (cases "preview_step x (pw, os)")
  have "owned_ok (proc pw') (preview_procs os')" "never_two is_preview os'"
    using preview_step_owned [OF _ s1] preview_step_never_two [OF _ _ s1] Cons.prems st by simp_all
  then show ?case using Cons.IH [of "(pw', os')"] st s1 by simp
qed

lemma fold_audio_step_inv:
  "owned_ok (audio_proc (fst st)) (audio_procs (snd st)) \<and> never_two is_audio (snd st) \<Longrightarrow>
   owned_ok (audio_proc (fst (fold audio_step ops st))) (audio_procs (snd (fold audio_step ops st)))
   \<and> never_two is_audio (snd (fold audio_step ops st))"
proof (induction ops arbitrary: st)
  case Nil
  then show ?case by simp
next
  case (Cons x xs)
  obtain ma os where st: "st = (ma, os)" by (cases st)
  obtain ma' os' where s1: "audio_step x (ma, os) = (ma', os')" by (cases "audio_step x (ma, os)")
  have "owned_ok (audio_proc ma') (audio_procs os')" "never_two is_audio os'"
    using audio_step_owned [OF _ s1] audio_step_never_two [OF _ _ s1] Cons.prems st by simp_all
  then show ?case using Cons.IH [of "(ma', os')"] st s1 by simp
qed

lemma audio_start_keeps:
  assumes "audio_start e (ma, os) = (ma', os')"
  shows "audio_path ma' = audio_path ma \<and> volume ma' = volume ma"
proof (cases "file_exists e (audio_path ma)")
  case True
  show ?thesis using assms unfolding audio_start_eq [OF True] by auto
next
  case False
  then show ?thesis using assms by (simp add: audio_start_def)
qed

text \<open>
  C6. Let each handle own the live processes of its kind (there is none, or exactly one
  and it is the handle's), and let no earlier content of the process table hold two
  processes of one kind. Then, for the preview handle and for the audio handle alike:
  after every sequence of start and stop calls (and of exits of the helper) the handle
  still owns the at most one live process of its kind, and no content the table has had
  in between held two. A start first stops and then spawns: the table without the
  handle's old process holds no process of the kind, it enters the history when the old
  process was running, and only after it comes the table with the new process, which the
  handle then owns (after a failed spawn the handle owns nothing). \<^verbatim>\<open>MenuAudio.start\<close> does
  this when its audio file exists and nothing otherwise. Two starts in a row, the second
  of which can spawn, leave exactly one live process of the kind, owned by the handle: for
  the preview, one playing the second path from the second offset.
\<close>

theorem one_live_process_per_handle:
  assumes "owned_ok (proc pw) (preview_procs os)" and "owned_ok (audio_proc ma) (audio_procs os)"
    and "never_two is_preview os" and "never_two is_audio os"
  shows "(\<exists>pw' os'. fold preview_step ops (pw, os) = (pw', os')
            \<and> owned_ok (proc pw') (preview_procs os') \<and> length (preview_procs os') \<le> 1
            \<and> never_two is_preview os')
       \<and> (\<exists>ma' os'. fold audio_step aops (ma, os) = (ma', os')
            \<and> owned_ok (audio_proc ma') (audio_procs os') \<and> length (audio_procs os') \<le> 1
            \<and> never_two is_audio os')
       \<and> (\<exists>pw' os'. start_preview e f off (pw, os) = (pw', os')
            \<and> proc pw' = (if spawn_ok e then Some (next_pid os) else None)
            \<and> filter is_preview (without (proc pw) (live os)) = []
            \<and> live os' = without (proc pw) (live os)
                 @ (if spawn_ok e then [(next_pid os, PreviewArgs f (max 0 off))] else [])
            \<and> history os' = history os
                 @ (if without (proc pw) (live os) = live os then [] else [without (proc pw) (live os)])
                 @ (if spawn_ok e then [live os'] else []))
       \<and> (without (proc pw) (live os) \<noteq> live os \<longleftrightarrow> (\<exists>p. proc pw = Some p \<and> running os p))
       \<and> (file_exists e (audio_path ma) \<longrightarrow>
            (\<exists>ma' os'. audio_start e (ma, os) = (ma', os')
              \<and> audio_proc ma' = (if spawn_ok e then Some (next_pid os) else None)
              \<and> filter is_audio (without (audio_proc ma) (live os)) = []
              \<and> live os' = without (audio_proc ma) (live os)
                   @ (if spawn_ok e then [(next_pid os, AudioArgs (audio_path ma) (volume ma))] else [])
              \<and> history os' = history os
                   @ (if without (audio_proc ma) (live os) = live os then []
                      else [without (audio_proc ma) (live os)])
                   @ (if spawn_ok e then [live os'] else [])))
       \<and> (without (audio_proc ma) (live os) \<noteq> live os
            \<longleftrightarrow> (\<exists>p. audio_proc ma = Some p \<and> running os p))
       \<and> (\<not> file_exists e (audio_path ma) \<longrightarrow> audio_start e (ma, os) = (ma, os))
       \<and> (spawn_ok eb \<longrightarrow>
            (\<exists>pw' os' p. start_preview eb pathB 10 (start_preview ea pathA 0 (pw, os)) = (pw', os')
               \<and> proc pw' = Some p \<and> preview_procs os' = [(p, PreviewArgs pathB 10)]))
       \<and> (spawn_ok eb \<and> file_exists eb (audio_path ma) \<longrightarrow>
            (\<exists>ma' os' p. audio_start eb (audio_start ea (ma, os)) = (ma', os')
               \<and> audio_proc ma' = Some p
               \<and> audio_procs os' = [(p, AudioArgs (audio_path ma) (volume ma))]))"
proof -
  have a: "\<exists>pw' os'. fold preview_step ops (pw, os) = (pw', os')
            \<and> owned_ok (proc pw') (preview_procs os') \<and> length (preview_procs os') \<le> 1
            \<and> never_two is_preview os'"
    using fold_preview_step_inv [of "(pw, os)" ops] assms(1,3)
    by (cases "fold preview_step ops (pw, os)") (auto dest: owned_ok_length)
  have b: "\<exists>ma' os'. fold audio_step aops (ma, os) = (ma', os')
            \<and> owned_ok (audio_proc ma') (audio_procs os') \<and> length (audio_procs os') \<le> 1
            \<and> never_two is_audio os'"
    using fold_audio_step_inv [of "(ma, os)" aops] assms(2,4)
    by (cases "fold audio_step aops (ma, os)") (auto dest: owned_ok_length)
  have c: "\<exists>pw' os'. start_preview e f off (pw, os) = (pw', os')
            \<and> proc pw' = (if spawn_ok e then Some (next_pid os) else None)
            \<and> filter is_preview (without (proc pw) (live os)) = []
            \<and> live os' = without (proc pw) (live os)
                 @ (if spawn_ok e then [(next_pid os, PreviewArgs f (max 0 off))] else [])
            \<and> history os' = history os
                 @ (if without (proc pw) (live os) = live os then [] else [without (proc pw) (live os)])
                 @ (if spawn_ok e then [live os'] else [])"
    unfolding start_preview_eq
    using without_owned(1) [OF assms(1)]
    by (simp add: live_set_live history_set_live)
  have d: "\<exists>ma' os'. audio_start e (ma, os) = (ma', os')
              \<and> audio_proc ma' = (if spawn_ok e then Some (next_pid os) else None)
              \<and> filter is_audio (without (audio_proc ma) (live os)) = []
              \<and> live os' = without (audio_proc ma) (live os)
                   @ (if spawn_ok e then [(next_pid os, AudioArgs (audio_path ma) (volume ma))] else [])
              \<and> history os' = history os
                   @ (if without (audio_proc ma) (live os) = live os then []
                      else [without (audio_proc ma) (live os)])
                   @ (if spawn_ok e then [live os'] else [])"
    if fe: "file_exists e (audio_path ma)"
    unfolding audio_start_eq [OF fe]
    using without_owned(2) [OF assms(2)]
    by (simp add: live_set_live history_set_live)
  note d = impI [OF d]
  have d': "\<not> file_exists e (audio_path ma) \<longrightarrow> audio_start e (ma, os) = (ma, os)"
    by (simp add: audio_start_def)
  have f: "\<exists>pw' os' p. start_preview eb pathB 10 (start_preview ea pathA 0 (pw, os)) = (pw', os')
               \<and> proc pw' = Some p \<and> preview_procs os' = [(p, PreviewArgs pathB 10)]"
    if "spawn_ok eb"
  proof -
    obtain pw1 os1 where s1: "start_preview ea pathA 0 (pw, os) = (pw1, os1)"
      by (cases "start_preview ea pathA 0 (pw, os)")
    have o1: "owned_ok (proc pw1) (preview_procs os1)"
      using start_preview_props(1) [OF s1 assms(1)] .
    obtain pw2 os2 where s2: "start_preview eb pathB 10 (pw1, os1) = (pw2, os2)"
      by (cases "start_preview eb pathB 10 (pw1, os1)")
    from start_preview_props(2) [OF s2 o1 that] show ?thesis using s1 s2 by simp
  qed
  note f = impI [OF f]
  have g: "\<exists>ma' os' p. audio_start eb (audio_start ea (ma, os)) = (ma', os')
               \<and> audio_proc ma' = Some p
               \<and> audio_procs os' = [(p, AudioArgs (audio_path ma) (volume ma))]"
    if hh: "spawn_ok eb \<and> file_exists eb (audio_path ma)"
  proof -
    have h: "spawn_ok eb" "file_exists eb (audio_path ma)" using hh by simp_all
    obtain ma1 os1 where s1: "audio_start ea (ma, os) = (ma1, os1)"
      by (cases "audio_start ea (ma, os)")
    have k: "audio_path ma1 = audio_path ma" "volume ma1 = volume ma"
      using audio_start_keeps [OF s1] by simp_all
    have o1: "owned_ok (audio_proc ma1) (audio_procs os1)"
      using audio_start_props [OF s1 assms(2)] by blast
    have fe: "file_exists eb (audio_path ma1)" using h(2) k by simp
    have A: "filter is_audio (without (audio_proc ma1) (live os1)) = []"
      using without_owned(2) [OF o1] .
    show ?thesis
      unfolding s1 audio_start_eq [OF fe]
      using h(1) k A by (simp add: audio_procs_def live_set_live is_audio_eq)
  qed
  note g = impI [OF g]
  note cw = without_live_iff [of "proc pw" os]
  note dw = without_live_iff [of "audio_proc ma" os]
  show ?thesis by (intro conjI a b c cw d d' dw f g) simp_all
qed

lemma ex_open_handles:
  "owned_ok (proc (preview ex_open)) (preview_procs (os_tab ex_open))"
  "owned_ok (audio_proc (menu_audio ex_open)) (audio_procs (os_tab ex_open))"
  "never_two is_preview (os_tab ex_open)"
  "never_two is_audio (os_tab ex_open)"
  "spawn_ok ex_env"
  "file_exists ex_env (audio_path (menu_audio ex_open))"
  "proc (preview ex_open) = Some 100"
  "running (os_tab ex_open) 100"
  by (simp_all add: ex_open_def ex_env_def preview_procs_def audio_procs_def never_two_def
        is_audio_def running_def)

lemma ex_restart_history:
  "history (snd (start_preview ex_env ''/b.mp4'' 10 (preview ex_open, os_tab ex_open))) =
     [[(100, PreviewArgs ''/media/News.mp4'' 500)],
      [(100, PreviewArgs ''/media/News.mp4'' 500), (101, AudioArgs ''/static/audio/menu.mp3'' 45)],
      [(101, AudioArgs ''/static/audio/menu.mp3'' 45)],
      [(101, AudioArgs ''/static/audio/menu.mp3'' 45), (102, PreviewArgs ''/b.mp4'' 10)]]"
  by code_simp

theorem one_live_process_per_handle_witness:
  "owned_ok (proc (preview ex_open)) (preview_procs (os_tab ex_open))
   \<and> owned_ok (audio_proc (menu_audio ex_open)) (audio_procs (os_tab ex_open))
   \<and> never_two is_preview (os_tab ex_open) \<and> never_two is_audio (os_tab ex_open)
   \<and> spawn_ok ex_env \<and> file_exists ex_env (audio_path (menu_audio ex_open))
   \<and> proc (preview ex_open) = Some 100 \<and> running (os_tab ex_open) 100
   \<and> (\<exists>pw' os'. fold preview_step
                     [(ex_env, Start ''/a.mp4'' 0), (ex_env, Stop), (ex_env, Start ''/b.mp4'' 10)]
                     (preview ex_open, os_tab ex_open) = (pw', os')
          \<and> owned_ok (proc pw') (preview_procs os') \<and> length (preview_procs os') \<le> 1
          \<and> never_two is_preview os')
   \<and> (\<exists>ma' os'. fold audio_step [(ex_env, AStart), (ex_env, AStart), (ex_env, AStop)]
                     (menu_audio ex_open, os_tab ex_open) = (ma', os')
          \<and> owned_ok (audio_proc ma') (audio_procs os') \<and> length (audio_procs os') \<le> 1
          \<and> never_two is_audio os')
   \<and> without (proc (preview ex_open)) (live (os_tab ex_open)) \<noteq> live (os_tab ex_open)
   \<and> (\<exists>pw' os' p. start_preview ex_env ''/b.mp4'' 10
                      (start_preview ex_env ''/a.mp4'' 0 (preview ex_open, os_tab ex_open)) = (pw', os')
          \<and> proc pw' = Some p \<and> preview_procs os' = [(p, PreviewArgs ''/b.mp4'' 10)])
   \<and> (\<exists>ma' os' p. audio_start ex_env (audio_start ex_env (menu_audio ex_open, os_tab ex_open))
                      = (ma', os')
          \<and> audio_proc ma' = Some p
          \<and> audio_procs os' = [(p, AudioArgs (audio_path (menu_audio ex_open))
                                               (volume (menu_audio ex_open)))])
   \<and> history (snd (start_preview ex_env ''/b.mp4'' 10 (preview ex_open, os_tab ex_open))) =
       [[(100, PreviewArgs ''/media/News.mp4'' 500)],
        [(100, PreviewArgs ''/media/News.mp4'' 500), (101, AudioArgs ''/static/audio/menu.mp3'' 45)],
        [(101, AudioArgs ''/static/audio/menu.mp3'' 45)],
        [(101, AudioArgs ''/static/audio/menu.mp3'' 45), (102, PreviewArgs ''/b.mp4'' 10)]]"
proof -
  note h = ex_open_handles
  note t = one_live_process_per_handle [OF h(1-4), where ea = ex_env and eb = ex_env
      and ops = "[(ex_env, Start ''/a.mp4'' 0), (ex_env, Stop), (ex_env, Start ''/b.mp4'' 10)]"
      and aops = "[(ex_env, AStart), (ex_env, AStart), (ex_env, AStop)]"
      and pathA = "''/a.mp4''" and pathB = "''/b.mp4''"]
  note a = t [THEN conjunct1]
  note b = t [THEN conjunct2, THEN conjunct1]
  note cw = t [THEN conjunct2, THEN conjunct2, THEN conjunct2, THEN conjunct1]
  note r = t [THEN conjunct2, THEN conjunct2, THEN conjunct2, THEN conjunct2, THEN conjunct2,
      THEN conjunct2, THEN conjunct2]
  note f = r [THEN conjunct1, THEN mp, OF h(5)]
  note g = r [THEN conjunct2, THEN mp, OF conjI [OF h(5,6)]]
  have w: "without (proc (preview ex_open)) (live (os_tab ex_open)) \<noteq> live (os_tab ex_open)"
    using cw h(7,8) by blast
  show ?thesis by (intro conjI h a b w f g ex_restart_history)
qed

section \<open>Closing the menu\<close>

lemma live_empty:
  assumes "preview_procs os = []" and "audio_procs os = []"
  shows "live os = []"
proof (rule ccontr)
  assume "live os \<noteq> []"
  then obtain q where q: "q \<in> set (live os)" by (cases "live os") auto
  then have "q \<in> set (preview_procs os) \<or> q \<in> set (audio_procs os)"
    by (auto simp: preview_procs_def audio_procs_def)
  then show False using assms by simp
qed

lemma procs_owned_w_stop_preview:
  assumes "procs_owned w"
  shows "procs_owned (w_stop_preview e w)"
    and "preview_procs (os_tab (w_stop_preview e w)) = []"
    and "proc (preview (w_stop_preview e w)) = None"
proof -
  obtain pw os' where st: "stop_preview e (preview w, os_tab w) = (pw, os')"
    by (cases "stop_preview e (preview w, os_tab w)")
  have eq: "w_stop_preview e w = w\<lparr>preview := pw, os_tab := os'\<rparr>"
    using st by (simp add: w_stop_preview_def)
  have o: "owned_ok (proc (preview w)) (preview_procs (os_tab w))"
    "owned_ok (audio_proc (menu_audio w)) (audio_procs (os_tab w))"
    using assms by (simp_all add: procs_owned_def)
  show "procs_owned (w_stop_preview e w)"
    using stop_preview_props(1) [OF st] stop_preview_props(2) [OF st o(1)]
      stop_preview_props(3) [OF st o(2)] eq
    by (simp add: procs_owned_def)
  show "preview_procs (os_tab (w_stop_preview e w)) = []"
    using stop_preview_props(2) [OF st o(1)] eq by simp
  show "proc (preview (w_stop_preview e w)) = None"
    using stop_preview_props(1) [OF st] eq by simp
qed

lemma procs_owned_w_audio_stop:
  assumes "procs_owned w"
  shows "procs_owned (w_audio_stop e w)"
    and "audio_procs (os_tab (w_audio_stop e w)) = []"
    and "audio_proc (menu_audio (w_audio_stop e w)) = None"
proof -
  obtain ma os' where st: "audio_stop e (menu_audio w, os_tab w) = (ma, os')"
    by (cases "audio_stop e (menu_audio w, os_tab w)")
  have eq: "w_audio_stop e w = w\<lparr>menu_audio := ma, os_tab := os'\<rparr>"
    using st by (simp add: w_audio_stop_def)
  have o: "owned_ok (proc (preview w)) (preview_procs (os_tab w))"
    "owned_ok (audio_proc (menu_audio w)) (audio_procs (os_tab w))"
    using assms by (simp_all add: procs_owned_def)
  show "procs_owned (w_audio_stop e w)"
    using audio_stop_props(1) [OF st] audio_stop_props(2) [OF st o(2)]
      audio_stop_props(3) [OF st o(1)] eq
    by (simp add: procs_owned_def)
  show "audio_procs (os_tab (w_audio_stop e w)) = []"
    using audio_stop_props(2) [OF st o(2)] eq by simp
  show "audio_proc (menu_audio (w_audio_stop e w)) = None"
    using audio_stop_props(1) [OF st] eq by simp
qed

lemma procs_owned_w_start_preview:
  assumes "procs_owned w"
  shows "procs_owned (w_start_preview e f off w)"
proof -
  obtain pw os' where st: "start_preview e f off (preview w, os_tab w) = (pw, os')"
    by (cases "start_preview e f off (preview w, os_tab w)")
  have eq: "w_start_preview e f off w = w\<lparr>preview := pw, os_tab := os'\<rparr>"
    using st by (simp add: w_start_preview_def)
  have o: "owned_ok (proc (preview w)) (preview_procs (os_tab w))"
    "owned_ok (audio_proc (menu_audio w)) (audio_procs (os_tab w))"
    using assms by (simp_all add: procs_owned_def)
  show ?thesis
    using start_preview_props(1) [OF st o(1)] start_preview_props(4) [OF st o(1) o(2)] eq
    by (simp add: procs_owned_def)
qed

lemma procs_owned_w_audio_start:
  assumes "procs_owned w"
  shows "procs_owned (w_audio_start e w)"
proof -
  obtain ma os' where st: "audio_start e (menu_audio w, os_tab w) = (ma, os')"
    by (cases "audio_start e (menu_audio w, os_tab w)")
  have eq: "w_audio_start e w = w\<lparr>menu_audio := ma, os_tab := os'\<rparr>"
    using st by (simp add: w_audio_start_def)
  have o: "owned_ok (proc (preview w)) (preview_procs (os_tab w))"
    "owned_ok (audio_proc (menu_audio w)) (audio_procs (os_tab w))"
    using assms by (simp_all add: procs_owned_def)
  show ?thesis
    using audio_start_props [OF st o(2), of "proc (preview w)"] o(1) eq
    by (simp add: procs_owned_def)
qed

lemma close_menu_fields:
  "preview (close_menu e w) = preview (w_stop_preview e (w_audio_stop e w))"
  "menu_audio (close_menu e w) = menu_audio (w_stop_preview e (w_audio_stop e w))"
  "os_tab (close_menu e w) = os_tab (w_stop_preview e (w_audio_stop e w))"
  "visible (close_menu e w) = False"
  by (simp_all add: close_menu_def return_to_live_def Let_def split: option.splits)

lemma close_menu_os_tab:
  "os_tab (close_menu e w) =
     stop_proc (term_exits e) (proc (preview w))
       (stop_proc (term_exits e) (audio_proc (menu_audio w)) (os_tab w))"
  by (simp add: close_menu_fields w_stop_preview_def w_audio_stop_def stop_preview_def audio_stop_def)

lemma close_menu_handles:
  "proc (preview (close_menu e w)) = None"
  "audio_proc (menu_audio (close_menu e w)) = None"
  by (simp_all add: close_menu_fields w_stop_preview_def w_audio_stop_def stop_preview_def audio_stop_def)

lemma not_running_exited: "\<not> running (exited p os) p"
  by (auto simp: running_def live_exited)

lemma running_exited: "running (exited p os) q \<Longrightarrow> running os q"
  by (auto simp: running_def live_exited)

lemma close_menu_not_running:
  assumes "proc (preview w) = Some p \<or> audio_proc (menu_audio w) = Some p"
  shows "\<not> running (os_tab (close_menu e w)) p"
proof
  assume r: "running (os_tab (close_menu e w)) p"
  let ?os1 = "case audio_proc (menu_audio w) of None \<Rightarrow> os_tab w | Some q \<Rightarrow> exited q (os_tab w)"
  have eq: "os_tab (close_menu e w) = (case proc (preview w) of None \<Rightarrow> ?os1 | Some q \<Rightarrow> exited q ?os1)"
    by (simp add: close_menu_os_tab stop_proc_exited)
  from assms show False
  proof
    assume "proc (preview w) = Some p"
    then show False using r eq not_running_exited by simp
  next
    assume a: "audio_proc (menu_audio w) = Some p"
    have "running ?os1 p"
      using r eq running_exited by (cases "proc (preview w)") auto
    then show False using a not_running_exited by simp
  qed
qed

lemma procs_owned_close_menu:
  assumes "procs_owned w"
  shows "procs_owned (close_menu e w)" and "live (os_tab (close_menu e w)) = []"
proof -
  let ?w1 = "w_audio_stop e w"
  let ?w2 = "w_stop_preview e ?w1"
  have o1: "procs_owned ?w1" "audio_procs (os_tab ?w1) = []"
    using procs_owned_w_audio_stop [OF assms] by simp_all
  have o2: "procs_owned ?w2" "preview_procs (os_tab ?w2) = []"
    using procs_owned_w_stop_preview [OF o1(1)] by simp_all
  have "owned_ok None (audio_procs (os_tab ?w2))"
    using o2(1) procs_owned_w_stop_preview(3) [OF o1(1), of e]
      procs_owned_w_audio_stop(3) [OF assms, of e]
    by (simp add: procs_owned_def w_stop_preview_def stop_preview_def)
  then have a2: "audio_procs (os_tab ?w2) = []" by (simp add: owned_ok_None)
  show "procs_owned (close_menu e w)"
    using o2(1) by (simp add: procs_owned_def close_menu_fields)
  show "live (os_tab (close_menu e w)) = []"
    using live_empty [OF o2(2) a2] by (simp add: close_menu_fields)
qed

text \<open>
  C7. In every state of the window, whatever the mode, \<^verbatim>\<open>close_menu\<close> leaves both handles
  without a process and the window hidden; a process a handle owned before is not
  running afterwards; and when the live helper processes were the ones the handles owned,
  no helper process is live afterwards.
\<close>

theorem close_menu_stops_helpers:
  "proc (preview (close_menu e w)) = None
   \<and> audio_proc (menu_audio (close_menu e w)) = None
   \<and> \<not> visible (close_menu e w)
   \<and> (\<forall>p. proc (preview w) = Some p \<or> audio_proc (menu_audio w) = Some p
          \<longrightarrow> \<not> running (os_tab (close_menu e w)) p)
   \<and> (procs_owned w \<longrightarrow> live (os_tab (close_menu e w)) = [])"
  using close_menu_handles [of e w] close_menu_fields(4) [of e w]
    close_menu_not_running [of w _ e] procs_owned_close_menu(2) [of w e]
  by blast

lemma ex_open_menu: "open_menu ex_env ex_window = Inr ex_open"
  by code_simp

lemma ex_open_owned:
  "procs_owned ex_open" "proc (preview ex_open) = Some 100" "visible ex_open"
  "audio_proc (menu_audio ex_open) = Some 101" "mode ex_open = Root"
  by (simp_all add: ex_open_def procs_owned_def preview_procs_def audio_procs_def
        ex_window_def MenuWindow_def MenuAudio_def)

theorem close_menu_stops_helpers_witness:
  "open_menu ex_env ex_window = Inr ex_open
   \<and> visible ex_open \<and> proc (preview ex_open) = Some 100 \<and> procs_owned ex_open
   \<and> proc (preview (close_menu ex_env ex_open)) = None
   \<and> audio_proc (menu_audio (close_menu ex_env ex_open)) = None
   \<and> \<not> visible (close_menu ex_env ex_open)
   \<and> \<not> running (os_tab (close_menu ex_env ex_open)) 100
   \<and> live (os_tab (close_menu ex_env ex_open)) = []
   \<and> procs_owned (ex_open\<lparr>mode := Guide\<rparr>)
   \<and> live (os_tab (close_menu ex_env (ex_open\<lparr>mode := Guide\<rparr>))) = []"
proof -
  have g: "procs_owned (ex_open\<lparr>mode := Guide\<rparr>)"
    using ex_open_owned(1) by (simp add: procs_owned_def)
  from close_menu_stops_helpers [of ex_env ex_open]
    close_menu_stops_helpers [of ex_env "ex_open\<lparr>mode := Guide\<rparr>"]
    ex_open_menu ex_open_owned g
  show ?thesis by blast
qed

section \<open>Ownership is kept by every operation of the window\<close>

lemma procs_owned_cong:
  "preview w' = preview w \<Longrightarrow> menu_audio w' = menu_audio w \<Longrightarrow> os_tab w' = os_tab w \<Longrightarrow>
   procs_owned w' = procs_owned w"
  by (simp add: procs_owned_def)

lemma procs_owned_MenuWindow: "live os0 = [] \<Longrightarrow> procs_owned (MenuWindow a v os0)"
  by (simp add: procs_owned_def MenuWindow_def MenuAudio_def preview_procs_def audio_procs_def)

lemma procs_owned_start_preview_from_channel:
  assumes "procs_owned w" and "start_preview_from_channel e cid w = Inr w'"
  shows "procs_owned w'"
  using assms procs_owned_w_start_preview
  by (auto simp: start_preview_from_channel_def split: sum.splits option.splits if_splits)

lemma procs_owned_guide_reanchor:
  assumes "procs_owned w" and "guide_reanchor e w = Inr w'"
  shows "procs_owned w'"
proof -
  have "\<And>w1 ft. procs_owned w1 \<Longrightarrow> procs_owned (w1\<lparr>pip_footer := ft\<rparr>)"
    by (simp add: procs_owned_def)
  then show ?thesis
    using assms procs_owned_start_preview_from_channel
    by (auto simp: guide_reanchor_def split: sum.splits option.splits if_splits)
qed

lemma procs_owned_enter_guide_mode:
  assumes "procs_owned w" and "enter_guide_mode e w = Inr w'"
  shows "procs_owned w'"
proof -
  let ?w1 = "w\<lparr>guide_rows := load_guide_rows e, g_sel_row := 0, g_sel_col := 0,
                g_row_offset := 0, mode := Guide\<rparr>"
  have o: "procs_owned ?w1" using assms(1) by (simp add: procs_owned_def)
  have f: "\<And>w2 ft. procs_owned w2 \<Longrightarrow> procs_owned (w2\<lparr>pip_footer := ft\<rparr>)"
    by (simp add: procs_owned_def)
  show ?thesis
    using assms(2) o f procs_owned_start_preview_from_channel [of ?w1 e]
    by (auto simp: enter_guide_mode_def Let_def split: sum.splits option.splits if_splits)
qed

lemma procs_owned_guide_nav:
  assumes "procs_owned w"
  shows "guide_left w = Inr w' \<Longrightarrow> procs_owned w'"
    and "guide_right w = Inr w' \<Longrightarrow> procs_owned w'"
    and "guide_page_up e w = Inr w' \<Longrightarrow> procs_owned w'"
    and "guide_page_down e w = Inr w' \<Longrightarrow> procs_owned w'"
proof -
  show "guide_left w = Inr w' \<Longrightarrow> procs_owned w'"
    using assms by (auto simp: guide_left_def procs_owned_def split: if_splits)
  show "guide_right w = Inr w' \<Longrightarrow> procs_owned w'"
    using assms by (auto simp: guide_right_def procs_owned_def Let_def split: if_splits sum.splits)
  show "procs_owned w'" if h: "guide_page_up e w = Inr w'"
  proof (cases "mode w \<noteq> Guide \<or> guide_rows w = []")
    case True
    then show ?thesis using h assms by (auto simp: guide_page_up_def split: if_splits)
  next
    case False
    then obtain w2 where w2: "guide_reanchor e w2 = Inr w'" "preview w2 = preview w"
      "menu_audio w2 = menu_audio w" "os_tab w2 = os_tab w"
      using h by (auto simp: guide_page_up_def Let_def split: if_splits)
    then show ?thesis
      using procs_owned_guide_reanchor [OF _ w2(1)] procs_owned_cong [OF w2(2-4)] assms by simp
  qed
  show "procs_owned w'" if h: "guide_page_down e w = Inr w'"
  proof (cases "mode w \<noteq> Guide \<or> guide_rows w = []")
    case True
    then show ?thesis using h assms by (auto simp: guide_page_down_def split: if_splits)
  next
    case False
    then obtain w2 where w2: "guide_reanchor e w2 = Inr w'" "preview w2 = preview w"
      "menu_audio w2 = menu_audio w" "os_tab w2 = os_tab w"
      using h by (auto simp: guide_page_down_def Let_def split: if_splits)
    then show ?thesis
      using procs_owned_guide_reanchor [OF _ w2(1)] procs_owned_cong [OF w2(2-4)] assms by simp
  qed
qed

lemma procs_owned_nav:
  assumes "procs_owned w"
  shows "nav_up w = Inr w' \<Longrightarrow> procs_owned w'"
    and "nav_down w = Inr w' \<Longrightarrow> procs_owned w'"
  using assms
  by (auto simp: nav_up_def nav_down_def procs_owned_def split: if_splits sum.splits)

lemma procs_owned_open_menu:
  assumes "procs_owned w" and "open_menu e w = Inr w'"
  shows "procs_owned w'"
proof -
  let ?w1 = "pause_playback e (w\<lparr>visible := True\<rparr>)"
  have o1: "procs_owned (?w1\<lparr>sent := sent ?w1 @ [GetStatus]\<rparr>)"
    using assms(1) by (simp add: procs_owned_def pause_playback_def)
  obtain w2 where w2: "start_preview_from_status e ?w1 = Inr w2"
      "w' = (w_audio_start e (update_pip_footer_from_status e w2))
              \<lparr>mode := Root, sel := sel_last (w_audio_start e (update_pip_footer_from_status e w2))\<rparr>"
    using assms(2) by (auto simp: open_menu_def Let_def split: sum.splits)
  have o2: "procs_owned w2"
    using w2(1) o1 procs_owned_start_preview_from_channel
    by (auto simp: start_preview_from_status_def Let_def split: option.splits)
  have "procs_owned (update_pip_footer_from_status e w2)"
    using o2 by (simp add: update_pip_footer_from_status_def procs_owned_def Let_def)
  then have "procs_owned (w_audio_start e (update_pip_footer_from_status e w2))"
    by (rule procs_owned_w_audio_start)
  then show ?thesis unfolding w2(2) by (simp add: procs_owned_def)
qed

lemma procs_owned_nav_enter:
  assumes "procs_owned w" and "nav_enter e w = Inr w'"
  shows "procs_owned w'"
proof (cases "mode w")
  case Root
  have o: "procs_owned (w\<lparr>sel_last := sel w\<rparr>)" using assms(1) by (simp add: procs_owned_def)
  show ?thesis
    using assms(2) Root procs_owned_close_menu(1) [OF o, of e]
      procs_owned_enter_guide_mode [OF o, of e w'] o
    by (auto simp: nav_enter_def Let_def split: sum.splits if_splits)
next
  case Guide
  have o: "procs_owned (w\<lparr>sent := s\<rparr>)" for s using assms(1) by (simp add: procs_owned_def)
  show ?thesis
    using assms Guide procs_owned_close_menu(1) [OF assms(1), of e]
      procs_owned_close_menu(1) [OF o, of e]
    by (auto simp: nav_enter_def split: sum.splits option.splits if_splits)
qed

lemma procs_owned_select_item:
  assumes "procs_owned w" and "select_item t w = (ok, w')"
  shows "procs_owned w'"
  using assms
  by (auto simp: select_item_def procs_owned_def split: target.splits option.splits if_splits)

lemma procs_owned_keyPressEvent:
  assumes "procs_owned w" and "keyPressEvent e k w = Inr w'"
  shows "procs_owned w'"
proof -
  have p: "procs_owned (w\<lparr>sel := i, sel_last := i\<rparr>)" for i
    using assms(1) by (simp add: procs_owned_def)
  show ?thesis
  proof (cases "k = Key_Escape \<or> k = Key_Home \<or> \<not> visible w")
    case True
    then show ?thesis
      using assms procs_owned_close_menu(1) [OF assms(1), of e] procs_owned_open_menu [OF assms(1), of e w']
      by (auto simp: keyPressEvent_def split: if_splits)
  next
    case False
    show ?thesis
    proof (cases "mode w")
      case Root
      then show ?thesis
        using False assms procs_owned_nav [OF assms(1)] p
          procs_owned_nav_enter [OF assms(1), of e w']
        by (auto simp: keyPressEvent_def split: if_splits sum.splits)
    next
      case Guide
      then show ?thesis
        using False assms procs_owned_guide_nav [OF assms(1)]
          procs_owned_nav_enter [OF assms(1), of e w']
        by (auto simp: keyPressEvent_def split: if_splits)
    qed
  qed
qed

lemma do_POST_cases:
  assumes "do_POST e p w = Inr (r, w')"
  shows "open_menu e w = Inr w' \<or> w' = close_menu e w \<or> w' = w
       \<or> nav_up w = Inr w' \<or> nav_down w = Inr w' \<or> nav_enter e w = Inr w'
       \<or> guide_left w = Inr w' \<or> guide_right w = Inr w'
       \<or> guide_page_up e w = Inr w' \<or> guide_page_down e w = Inr w'
       \<or> enter_guide_mode e w = Inr w'
       \<or> (\<exists>t ok. select_item t w = (ok, w'))
       \<or> (\<exists>t w1. select_item t w = (True, w1) \<and> nav_enter e w1 = Inr w')"
  using assms
  unfolding do_POST_def with_reply_def activate_selection_def Let_def
  by (auto split: if_splits sum.splits prod.splits bool.splits)

lemma procs_owned_do_POST:
  assumes "procs_owned w" and "do_POST e p w = Inr (r, w')"
  shows "procs_owned w'"
proof -
  from do_POST_cases [OF assms(2)]
  consider "open_menu e w = Inr w'" | "w' = close_menu e w" | "w' = w"
    | "nav_up w = Inr w'" | "nav_down w = Inr w'" | "nav_enter e w = Inr w'"
    | "guide_left w = Inr w'" | "guide_right w = Inr w'"
    | "guide_page_up e w = Inr w'" | "guide_page_down e w = Inr w'"
    | "enter_guide_mode e w = Inr w'"
    | t ok where "select_item t w = (ok, w')"
    | t w1 where "select_item t w = (True, w1)" "nav_enter e w1 = Inr w'"
    by blast
  then show ?thesis
  proof cases
    case 1 then show ?thesis using procs_owned_open_menu [OF assms(1)] by blast
  next
    case 2 then show ?thesis using procs_owned_close_menu(1) [OF assms(1)] by simp
  next
    case 3 then show ?thesis using assms(1) by simp
  next
    case 4 then show ?thesis using procs_owned_nav(1) [OF assms(1)] by blast
  next
    case 5 then show ?thesis using procs_owned_nav(2) [OF assms(1)] by blast
  next
    case 6 then show ?thesis using procs_owned_nav_enter [OF assms(1)] by blast
  next
    case 7 then show ?thesis using procs_owned_guide_nav(1) [OF assms(1)] by blast
  next
    case 8 then show ?thesis using procs_owned_guide_nav(2) [OF assms(1)] by blast
  next
    case 9 then show ?thesis using procs_owned_guide_nav(3) [OF assms(1)] by blast
  next
    case 10 then show ?thesis using procs_owned_guide_nav(4) [OF assms(1)] by blast
  next
    case 11 then show ?thesis using procs_owned_enter_guide_mode [OF assms(1)] by blast
  next
    case 12 then show ?thesis using procs_owned_select_item [OF assms(1)] by blast
  next
    case 13
    have "procs_owned w1" using procs_owned_select_item [OF assms(1) 13(1)] .
    then show ?thesis using procs_owned_nav_enter 13(2) by blast
  qed
qed

lemma procs_owned_window_step:
  assumes "procs_owned w" and "window_step x w = Inr w'"
  shows "procs_owned w'"
proof -
  obtain e i where x: "x = (e, i)" by (cases x)
  show ?thesis
  proof (cases i)
    case (Http p)
    then obtain r where "do_POST e p w = Inr (r, w')"
      using assms(2) x by (cases "do_POST e p w") auto
    then show ?thesis using procs_owned_do_POST [OF assms(1)] by blast
  next
    case (KeyPress k)
    then show ?thesis using assms x procs_owned_keyPressEvent by simp
  qed
qed

lemma procs_owned_run_window:
  "procs_owned w \<Longrightarrow> run_window xs w = Inr w' \<Longrightarrow> procs_owned w'"
proof (induction xs arbitrary: w)
  case Nil
  then show ?case by simp
next
  case (Cons x xs)
  then obtain w1 where w1: "window_step x w = Inr w1" "run_window xs w1 = Inr w'"
    by (cases "window_step x w") auto
  show ?case using Cons.IH [OF procs_owned_window_step [OF Cons.prems(1) w1(1)] w1(2)] .
qed

text \<open>Every window reached from a freshly constructed one, by remote commands and keys in
  any environments, owns its live helper processes.\<close>

lemma reachable_procs_owned:
  "live os0 = [] \<Longrightarrow> run_window xs (MenuWindow a v os0) = Inr w \<Longrightarrow> procs_owned w"
  using procs_owned_run_window [OF procs_owned_MenuWindow] .

end
